theory Spec2Isabelle
  imports Main "HOL-Library.Multiset"
begin

section \<open>Data model (main.go, lines 15-70)\<close>

text \<open>
  A \<^verbatim>\<open>time.Time\<close> is modelled by the instant it denotes, counted from the zero value
  \<^verbatim>\<open>time.Time{}\<close> (January 1, year 1, UTC), so that the zero value is \<open>0\<close> and instants before
  it are negative. \<^verbatim>\<open>t.After(u)\<close> is the strict order on instants.
\<close>

type_synonym Time = int

definition zero_time :: Time where
  "zero_time = 0"

definition After :: "Time \<Rightarrow> Time \<Rightarrow> bool" where
  "After t u \<longleftrightarrow> u < t"

text \<open>
  \<^verbatim>\<open>RegistryClient\<close> without its \<^verbatim>\<open>*http.Client\<close>: the transport belongs to the environment
  below.
\<close>

record RegistryClient =
  BaseURL :: string
  Username :: string
  Password :: string

record RepositoriesResponse =
  Repositories :: "string list"

record TagsResponse =
  Name :: string
  Tags :: "string list"

text \<open>
  The anonymous structs nested in \<^verbatim>\<open>ManifestResponse\<close> and \<^verbatim>\<open>ManifestV2Response\<close> are
  flattened: \<open>History\<close> lists the \<^verbatim>\<open>V1Compatibility\<close> string of each history entry, and
  \<open>ConfigDigest\<close> is \<^verbatim>\<open>Config.Digest\<close>. The labels of \<^verbatim>\<open>ConfigResponse\<close> are never read and
  are left out.
\<close>

record ManifestResponse =
  SchemaVersion :: int
  History :: "string list"

record ManifestV2Response =
  SchemaVersionV2 :: int
  MediaType :: string
  ConfigDigest :: string

record ConfigResponse =
  ConfigCreated :: Time

record V1Compatibility =
  V1Created :: Time

record ImageInfo =
  Repository :: string
  Tag :: string
  Digest :: string
  Created :: Time

section \<open>Errors, panics and printed lines\<close>

text \<open>
  One constructor of \<open>msg\<close> for each format string given to \<^verbatim>\<open>fmt.Errorf\<close>; an error
  built by \<^verbatim>\<open>fmt.Errorf\<close> is the format together with the arguments it interpolates, in
  order. \<open>LibError\<close> is an error returned by \<^verbatim>\<open>net/http\<close> or \<^verbatim>\<open>encoding/json\<close>.
\<close>

datatype msg =
    ErrListRepositories      \<comment> \<open>line 103, arguments: err\<close>
  | ErrStatusRepositories    \<comment> \<open>line 108, arguments: status\<close>
  | ErrDecodeResponse        \<comment> \<open>line 113, arguments: err\<close>
  | ErrListTags              \<comment> \<open>line 124, arguments: repository, err\<close>
  | ErrStatusTags            \<comment> \<open>line 129, arguments: status, repository\<close>
  | ErrDecodeTags            \<comment> \<open>line 134, arguments: err\<close>
  | ErrGetManifest           \<comment> \<open>lines 145 and 179, arguments: repository, tag, err\<close>
  | ErrStatusManifest        \<comment> \<open>line 150, arguments: status, repository, tag\<close>
  | ErrDigestNotFound        \<comment> \<open>line 155, arguments: repository, tag\<close>
  | ErrGetManifestV2         \<comment> \<open>line 206, arguments: repository, tag, err\<close>
  | ErrCreateDelete          \<comment> \<open>line 239, arguments: err\<close>
  | ErrDeleteManifest        \<comment> \<open>line 250, arguments: digest, err\<close>
  | ErrDeleteUnsupported     \<comment> \<open>line 273, no argument\<close>
  | ErrManifestNotFound      \<comment> \<open>line 275, arguments: body\<close>
  | ErrUnauthorized          \<comment> \<open>line 277, arguments: body\<close>
  | ErrForbidden             \<comment> \<open>line 279, arguments: body\<close>
  | ErrStatusDelete          \<comment> \<open>line 281, arguments: status, body\<close>

datatype error = LibError string | Errorf msg "arg list"
  and arg = ArgInt int | ArgStr string | ArgErr error

text \<open>
  The two run-time panics of the program: a slice expression \<^verbatim>\<open>s[lo:]\<close> with \<open>lo\<close> out of
  range, and \<^verbatim>\<open>s[:hi]\<close> with \<open>hi\<close> beyond the length.
\<close>

datatype panic = SliceBoundsLow int nat | SliceBoundsHigh nat nat

datatype status = Keep | Delete

text \<open>One constructor for each \<^verbatim>\<open>fmt.Printf\<close>/\<^verbatim>\<open>fmt.Println\<close> site, with its arguments.\<close>

datatype event =
    PrintFallbackNow string string                 \<comment> \<open>line 229\<close>
  | PrintDeleteUnsupported                         \<comment> \<open>lines 263-272\<close>
  | PrintProcessing string                         \<comment> \<open>line 287\<close>
  | PrintFewTags string int                        \<comment> \<open>line 295\<close>
  | PrintWarnDigest string string error            \<comment> \<open>line 305\<close>
  | PrintWarnCreated string string error           \<comment> \<open>line 311\<close>
  | PrintImageCreated string string Time           \<comment> \<open>line 322\<close>
  | PrintSortedHeader                              \<comment> \<open>line 330\<close>
  | PrintSortedLine int string string Time status  \<comment> \<open>line 336\<close>
  | PrintFound int int int                         \<comment> \<open>line 343\<close>
  | PrintDeleting string string Time string        \<comment> \<open>line 347\<close>
  | PrintDeleteError string string error           \<comment> \<open>line 350\<close>
  | PrintDeleted string string                     \<comment> \<open>line 352\<close>
  | PrintBanner string                             \<comment> \<open>lines 372-373\<close>
  | PrintNoRepositories                            \<comment> \<open>line 384\<close>
  | PrintFoundRepositories int                     \<comment> \<open>line 388\<close>
  | PrintRepositoryError string error              \<comment> \<open>line 393\<close>
  | PrintFinished                                  \<comment> \<open>lines 397-399\<close>

section \<open>The environment: transport, clock, JSON decoding, sorting\<close>

datatype httpMethod = GET | HEAD | DELETE

record request =
  Method :: httpMethod
  URL :: string
  BasicAuth :: "(string \<times> string) option"
  Accept :: string

text \<open>
  Of a response the program reads the status code, the header \<^verbatim>\<open>Docker-Content-Digest\<close>
  (\<^verbatim>\<open>Header.Get\<close> gives the empty string when it is absent) and the body.
\<close>

record response =
  StatusCode :: int
  DockerContentDigest :: string
  Body :: string

text \<open>
  Everything the program calls and does not define is a field of the environment:
  \<^item> \<open>NewRequestError\<close>: the error of \<^verbatim>\<open>http.NewRequest\<close> for a method and URL, if any;
  \<^item> \<open>Do\<close>: \<^verbatim>\<open>rc.Client.Do\<close>, the registry's answer (or a transport error) in a world
    \<open>'w\<close>, and the world after it;
  \<^item> \<open>Now\<close>: \<^verbatim>\<open>time.Now\<close>;
  \<^item> the decoders of \<^verbatim>\<open>encoding/json\<close>, one for each struct the program decodes into; a
    field absent from the document keeps the zero value of its type;
  \<^item> \<open>SortSlice\<close>: \<^verbatim>\<open>sort.Slice\<close>, given the comparison on elements.
\<close>

record 'w env =
  NewRequestError :: "httpMethod \<Rightarrow> string \<Rightarrow> error option"
  Do :: "'w \<Rightarrow> request \<Rightarrow> (error + response) \<times> 'w"
  Now :: "'w \<Rightarrow> Time \<times> 'w"
  DecodeRepositories :: "string \<Rightarrow> error + RepositoriesResponse"
  DecodeTags :: "string \<Rightarrow> error + TagsResponse"
  DecodeManifest :: "string \<Rightarrow> error + ManifestResponse"
  UnmarshalV1Compatibility :: "string \<Rightarrow> error + V1Compatibility"
  DecodeManifestV2 :: "string \<Rightarrow> error + ManifestV2Response"
  DecodeConfig :: "string \<Rightarrow> error + ConfigResponse"
  SortSlice :: "(ImageInfo \<Rightarrow> ImageInfo \<Rightarrow> bool) \<Rightarrow> ImageInfo list \<Rightarrow> ImageInfo list"

text \<open>
  The state of a run: the world, the requests sent so far and the lines printed so far.
\<close>

record 'w state =
  World :: 'w
  Sent :: "request list"
  Out :: "event list"

definition Printf :: "event \<Rightarrow> 'w state \<Rightarrow> 'w state" where
  "Printf e st = st\<lparr>Out := Out st @ [e]\<rparr>"

definition TimeNow :: "'w env \<Rightarrow> 'w state \<Rightarrow> Time \<times> 'w state" where
  "TimeNow env st = (case Now env (World st) of (t, w) \<Rightarrow> (t, st\<lparr>World := w\<rparr>))"

definition NewRequest :: "'w env \<Rightarrow> httpMethod \<Rightarrow> string \<Rightarrow> error + request" where
  "NewRequest env m url =
     (case NewRequestError env m url of
        Some err \<Rightarrow> Inl err
      | None \<Rightarrow> Inr \<lparr>Method = m, URL = url, BasicAuth = None, Accept = ''''\<rparr>)"

definition ClientDo :: "'w env \<Rightarrow> request \<Rightarrow> 'w state \<Rightarrow> (error + response) \<times> 'w state" where
  "ClientDo env req st =
     (case Do env (World st) req of
        (r, w) \<Rightarrow> (r, st\<lparr>World := w, Sent := Sent st @ [req]\<rparr>))"

section \<open>The registry client (main.go, lines 72-283)\<close>

definition TrimSuffix :: "string \<Rightarrow> string \<Rightarrow> string" where
  "TrimSuffix s suf =
     (if length suf \<le> length s \<and> drop (length s - length suf) s = suf
      then take (length s - length suf) s else s)"

definition NewRegistryClient :: "string \<Rightarrow> string \<Rightarrow> string \<Rightarrow> RegistryClient" where
  "NewRegistryClient baseURL username password =
     \<lparr>BaseURL = TrimSuffix baseURL ''/'', Username = username, Password = password\<rparr>"

definition manifest_v1 :: string where
  "manifest_v1 = ''application/vnd.docker.distribution.manifest.v1+json''"

definition manifest_v2 :: string where
  "manifest_v2 = ''application/vnd.docker.distribution.manifest.v2+json''"

text \<open>Lines 89-91, 171-173, 199-201 and 242-244: Basic auth when both parts are non-empty.\<close>

definition SetBasicAuth :: "RegistryClient \<Rightarrow> request \<Rightarrow> request" where
  "SetBasicAuth rc req =
     (if Username rc \<noteq> '''' \<and> Password rc \<noteq> ''''
      then req\<lparr>BasicAuth := Some (Username rc, Password rc)\<rparr> else req)"

definition makeRequest ::
  "'w env \<Rightarrow> RegistryClient \<Rightarrow> httpMethod \<Rightarrow> string \<Rightarrow> 'w state \<Rightarrow> (error + response) \<times> 'w state" where
  "makeRequest env rc m url st =
     (case NewRequest env m url of
        Inl err \<Rightarrow> (Inl err, st)
      | Inr req \<Rightarrow> ClientDo env ((SetBasicAuth rc req)\<lparr>Accept := manifest_v2\<rparr>) st)"

definition GetRepositories ::
  "'w env \<Rightarrow> RegistryClient \<Rightarrow> 'w state \<Rightarrow> (error + string list) \<times> 'w state" where
  "GetRepositories env rc st =
     (case makeRequest env rc GET (BaseURL rc @ ''/v2/_catalog'') st of
        (Inl err, st1) \<Rightarrow> (Inl (Errorf ErrListRepositories [ArgErr err]), st1)
      | (Inr resp, st1) \<Rightarrow>
          if StatusCode resp \<noteq> 200
          then (Inl (Errorf ErrStatusRepositories [ArgInt (StatusCode resp)]), st1)
          else (case DecodeRepositories env (Body resp) of
                  Inl err \<Rightarrow> (Inl (Errorf ErrDecodeResponse [ArgErr err]), st1)
                | Inr repoResp \<Rightarrow> (Inr (Repositories repoResp), st1)))"

definition GetTags ::
  "'w env \<Rightarrow> RegistryClient \<Rightarrow> string \<Rightarrow> 'w state \<Rightarrow> (error + string list) \<times> 'w state" where
  "GetTags env rc repository st =
     (case makeRequest env rc GET (BaseURL rc @ ''/v2/'' @ repository @ ''/tags/list'') st of
        (Inl err, st1) \<Rightarrow> (Inl (Errorf ErrListTags [ArgStr repository, ArgErr err]), st1)
      | (Inr resp, st1) \<Rightarrow>
          if StatusCode resp \<noteq> 200
          then (Inl (Errorf ErrStatusTags [ArgInt (StatusCode resp), ArgStr repository]), st1)
          else (case DecodeTags env (Body resp) of
                  Inl err \<Rightarrow> (Inl (Errorf ErrDecodeTags [ArgErr err]), st1)
                | Inr tagsResp \<Rightarrow> (Inr (Tags tagsResp), st1)))"

definition manifestURL :: "RegistryClient \<Rightarrow> string \<Rightarrow> string \<Rightarrow> string" where
  "manifestURL rc repository reference =
     BaseURL rc @ ''/v2/'' @ repository @ ''/manifests/'' @ reference"

definition GetManifestDigest ::
  "'w env \<Rightarrow> RegistryClient \<Rightarrow> string \<Rightarrow> string \<Rightarrow> 'w state \<Rightarrow> (error + string) \<times> 'w state" where
  "GetManifestDigest env rc repository tag st =
     (case makeRequest env rc HEAD (manifestURL rc repository tag) st of
        (Inl err, st1) \<Rightarrow>
          (Inl (Errorf ErrGetManifest [ArgStr repository, ArgStr tag, ArgErr err]), st1)
      | (Inr resp, st1) \<Rightarrow>
          if StatusCode resp \<noteq> 200
          then (Inl (Errorf ErrStatusManifest
                       [ArgInt (StatusCode resp), ArgStr repository, ArgStr tag]), st1)
          else if DockerContentDigest resp = ''''
          then (Inl (Errorf ErrDigestNotFound [ArgStr repository, ArgStr tag]), st1)
          else (Inr (DockerContentDigest resp), st1))"

text \<open>
  Lines 183-191: the schema-v1 strategy on the response to the first request. It yields
  the \<^verbatim>\<open>Created\<close> field of the decoded first history entry, whatever its value.
\<close>

definition createdV1 :: "'w env \<Rightarrow> response \<Rightarrow> Time option" where
  "createdV1 env resp =
     (if StatusCode resp = 200
      then (case DecodeManifest env (Body resp) of
              Inl err \<Rightarrow> None
            | Inr manifest \<Rightarrow>
                (case History manifest of
                   [] \<Rightarrow> None
                 | h # hs \<Rightarrow>
                     (case UnmarshalV1Compatibility env h of
                        Inl err \<Rightarrow> None
                      | Inr v1Compat \<Rightarrow> Some (V1Created v1Compat))))
      else None)"

text \<open>
  Lines 210-226: the schema-v2 strategy on the response to the second request; it fetches
  the config blob with \<open>makeRequest\<close>.
\<close>

definition createdV2 ::
  "'w env \<Rightarrow> RegistryClient \<Rightarrow> string \<Rightarrow> response \<Rightarrow> 'w state \<Rightarrow> Time option \<times> 'w state" where
  "createdV2 env rc repository resp st =
     (if StatusCode resp = 200
      then (case DecodeManifestV2 env (Body resp) of
              Inl err \<Rightarrow> (None, st)
            | Inr manifestV2 \<Rightarrow>
                if ConfigDigest manifestV2 \<noteq> ''''
                then (case makeRequest env rc GET
                             (BaseURL rc @ ''/v2/'' @ repository @ ''/blobs/'' @ ConfigDigest manifestV2) st of
                        (Inl err, st1) \<Rightarrow> (None, st1)
                      | (Inr configResp, st1) \<Rightarrow>
                          if StatusCode configResp = 200
                          then (case DecodeConfig env (Body configResp) of
                                  Inl err \<Rightarrow> (None, st1)
                                | Inr config \<Rightarrow> (Some (ConfigCreated config), st1))
                          else (None, st1))
                else (None, st))
      else (None, st))"

definition GetImageCreated ::
  "'w env \<Rightarrow> RegistryClient \<Rightarrow> string \<Rightarrow> string \<Rightarrow> 'w state \<Rightarrow> (error + Time) \<times> 'w state" where
  "GetImageCreated env rc repository tag st =
     (case NewRequest env GET (manifestURL rc repository tag) of
        Inl err \<Rightarrow> (Inl err, st)
      | Inr req \<Rightarrow>
          (case ClientDo env ((SetBasicAuth rc req)\<lparr>Accept := manifest_v1\<rparr>) st of
             (Inl err, st1) \<Rightarrow>
               (Inl (Errorf ErrGetManifest [ArgStr repository, ArgStr tag, ArgErr err]), st1)
           | (Inr resp, st1) \<Rightarrow>
               (case createdV1 env resp of
                  Some created \<Rightarrow> (Inr created, st1)
                | None \<Rightarrow>
                    (case NewRequest env GET (manifestURL rc repository tag) of
                       Inl err \<Rightarrow> (Inl err, st1)
                     | Inr req2 \<Rightarrow>
                         (case ClientDo env ((SetBasicAuth rc req2)\<lparr>Accept := manifest_v2\<rparr>) st1 of
                            (Inl err, st2) \<Rightarrow>
                              (Inl (Errorf ErrGetManifestV2
                                      [ArgStr repository, ArgStr tag, ArgErr err]), st2)
                          | (Inr resp2, st2) \<Rightarrow>
                              (case createdV2 env rc repository resp2 st2 of
                                 (Some created, st3) \<Rightarrow> (Inr created, st3)
                               | (None, st3) \<Rightarrow>
                                   (case TimeNow env (Printf (PrintFallbackNow repository tag) st3) of
                                      (now, st4) \<Rightarrow> (Inr now, st4))))))))"

definition DeleteManifest ::
  "'w env \<Rightarrow> RegistryClient \<Rightarrow> string \<Rightarrow> string \<Rightarrow> 'w state \<Rightarrow> error option \<times> 'w state" where
  "DeleteManifest env rc repository digest st =
     (case NewRequest env DELETE (manifestURL rc repository digest) of
        Inl err \<Rightarrow> (Some (Errorf ErrCreateDelete [ArgErr err]), st)
      | Inr req \<Rightarrow>
          (case ClientDo env ((SetBasicAuth rc req)\<lparr>Accept := manifest_v2\<rparr>) st of
             (Inl err, st1) \<Rightarrow> (Some (Errorf ErrDeleteManifest [ArgStr digest, ArgErr err]), st1)
           | (Inr resp, st1) \<Rightarrow>
               if StatusCode resp = 202 \<or> StatusCode resp = 200 then (None, st1)
               else if StatusCode resp = 405
               then (Some (Errorf ErrDeleteUnsupported []), Printf PrintDeleteUnsupported st1)
               else if StatusCode resp = 404
               then (Some (Errorf ErrManifestNotFound [ArgStr (Body resp)]), st1)
               else if StatusCode resp = 401
               then (Some (Errorf ErrUnauthorized [ArgStr (Body resp)]), st1)
               else if StatusCode resp = 403
               then (Some (Errorf ErrForbidden [ArgStr (Body resp)]), st1)
               else (Some (Errorf ErrStatusDelete [ArgInt (StatusCode resp), ArgStr (Body resp)]), st1)))"

section \<open>The orchestrator (main.go, lines 285-400)\<close>

text \<open>
  Lines 309-313: the creation time of a tag; an error of \<open>GetImageCreated\<close> is replaced by
  the current time, with a warning.
\<close>

definition resolveCreated ::
  "'w env \<Rightarrow> RegistryClient \<Rightarrow> string \<Rightarrow> string \<Rightarrow> 'w state \<Rightarrow> Time \<times> 'w state" where
  "resolveCreated env rc repository tag st =
     (case GetImageCreated env rc repository tag st of
        (Inl err, st1) \<Rightarrow> TimeNow env (Printf (PrintWarnCreated repository tag err) st1)
      | (Inr created, st1) \<Rightarrow> (created, st1))"

text \<open>
  Lines 302-323: the loop over the tags. A tag whose digest lookup fails is skipped with a
  warning.
\<close>

fun collectImages ::
  "'w env \<Rightarrow> RegistryClient \<Rightarrow> string \<Rightarrow> string list \<Rightarrow> ImageInfo list \<Rightarrow> 'w state
     \<Rightarrow> ImageInfo list \<times> 'w state" where
  "collectImages env rc repository [] images st = (images, st)"
| "collectImages env rc repository (tag # tags) images st =
     (case GetManifestDigest env rc repository tag st of
        (Inl err, st1) \<Rightarrow>
          collectImages env rc repository tags images
            (Printf (PrintWarnDigest repository tag err) st1)
      | (Inr digest, st1) \<Rightarrow>
          (case resolveCreated env rc repository tag st1 of
             (created, st2) \<Rightarrow>
               collectImages env rc repository tags
                 (images @ [\<lparr>Repository = repository, Tag = tag, Digest = digest,
                             Created = created\<rparr>])
                 (Printf (PrintImageCreated repository tag created) st2)))"

text \<open>Lines 326-328: \<^verbatim>\<open>sort.Slice\<close> with the comparison "created after".\<close>

definition newer :: "ImageInfo \<Rightarrow> ImageInfo \<Rightarrow> bool" where
  "newer a b \<longleftrightarrow> After (Created a) (Created b)"

definition sortImages :: "'w env \<Rightarrow> ImageInfo list \<Rightarrow> ImageInfo list" where
  "sortImages env images = SortSlice env newer images"

text \<open>Lines 331-338: the listing; the image at index \<open>i\<close> is kept unless \<open>i >= keepLast\<close>.\<close>

definition imageStatus :: "int \<Rightarrow> nat \<Rightarrow> status" where
  "imageStatus keepLast i = (if int i \<ge> keepLast then Delete else Keep)"

fun printSorted :: "int \<Rightarrow> nat \<Rightarrow> ImageInfo list \<Rightarrow> 'w state \<Rightarrow> 'w state" where
  "printSorted keepLast i [] st = st"
| "printSorted keepLast i (img # imgs) st =
     printSorted keepLast (Suc i) imgs
       (Printf (PrintSortedLine (int i + 1) (Repository img) (Tag img) (Created img)
                  (imageStatus keepLast i)) st)"

text \<open>The slice expression \<^verbatim>\<open>s[lo:]\<close>: it panics unless \<open>0 <= lo <= len(s)\<close>.\<close>

definition sliceFrom :: "'a list \<Rightarrow> int \<Rightarrow> panic + 'a list" where
  "sliceFrom s lo =
     (if lo < 0 \<or> int (length s) < lo then Inl (SliceBoundsLow lo (length s))
      else Inr (drop (nat lo) s))"

text \<open>The slice expression \<^verbatim>\<open>s[:hi]\<close> on a string: it panics unless \<open>hi <= len(s)\<close>.\<close>

definition sliceTo :: "string \<Rightarrow> nat \<Rightarrow> panic + string" where
  "sliceTo s hi =
     (if length s < hi then Inl (SliceBoundsHigh hi (length s)) else Inr (take hi s))"

text \<open>
  Lines 346-354: the loop over \<open>toDelete\<close>. The arguments of the first \<^verbatim>\<open>Printf\<close> are
  evaluated before anything is printed, so a digest shorter than 12 bytes panics before
  the line is printed and before \<open>DeleteManifest\<close> is called.
\<close>

fun deleteImages ::
  "'w env \<Rightarrow> RegistryClient \<Rightarrow> ImageInfo list \<Rightarrow> 'w state \<Rightarrow> (panic + unit) \<times> 'w state" where
  "deleteImages env rc [] st = (Inr (), st)"
| "deleteImages env rc (img # imgs) st =
     (case sliceTo (Digest img) 12 of
        Inl p \<Rightarrow> (Inl p, st)
      | Inr short \<Rightarrow>
          (case DeleteManifest env rc (Repository img) (Digest img)
                  (Printf (PrintDeleting (Repository img) (Tag img) (Created img) short) st) of
             (Some err, st1) \<Rightarrow>
               deleteImages env rc imgs
                 (Printf (PrintDeleteError (Repository img) (Tag img) err) st1)
           | (None, st1) \<Rightarrow>
               deleteImages env rc imgs (Printf (PrintDeleted (Repository img) (Tag img)) st1)))"

text \<open>
  The retention plan of a sorted list, as lines 331-344 fix it: the Keep set is the images
  listed with status \<open>Keep\<close>, the Delete set is \<open>toDelete\<close>, the list the deletion loop runs
  over (nothing when the guard of line 341 is false).
\<close>

definition KeepSet :: "int \<Rightarrow> ImageInfo list \<Rightarrow> ImageInfo list" where
  "KeepSet keepLast images =
     map snd (filter (\<lambda>(i, img). imageStatus keepLast i = Keep) (enumerate 0 images))"

definition DeleteSet :: "int \<Rightarrow> ImageInfo list \<Rightarrow> panic + ImageInfo list" where
  "DeleteSet keepLast images =
     (if int (length images) > keepLast then sliceFrom images keepLast else Inr [])"

text \<open>Lines 340-355: the deletions, on the sorted images.\<close>

definition deletePhase ::
  "'w env \<Rightarrow> RegistryClient \<Rightarrow> int \<Rightarrow> ImageInfo list \<Rightarrow> 'w state \<Rightarrow> (panic + unit) \<times> 'w state" where
  "deletePhase env rc keepLast images st =
     (if int (length images) > keepLast
      then (case sliceFrom images keepLast of
              Inl p \<Rightarrow> (Inl p, st)
            | Inr toDelete \<Rightarrow>
                deleteImages env rc toDelete
                  (Printf (PrintFound (int (length images)) keepLast (int (length toDelete))) st))
      else (Inr (), st))"

text \<open>
  \<open>CleanupRepository\<close> returns an error, returns \<^verbatim>\<open>nil\<close> (\<open>None\<close>) or panics.
\<close>

definition CleanupRepository ::
  "'w env \<Rightarrow> RegistryClient \<Rightarrow> string \<Rightarrow> int \<Rightarrow> 'w state \<Rightarrow> (panic + error option) \<times> 'w state" where
  "CleanupRepository env rc repository keepLast st =
     (case GetTags env rc repository (Printf (PrintProcessing repository) st) of
        (Inl err, st1) \<Rightarrow> (Inr (Some err), st1)
      | (Inr tags, st1) \<Rightarrow>
          if int (length tags) \<le> keepLast
          then (Inr None, Printf (PrintFewTags repository (int (length tags))) st1)
          else (case collectImages env rc repository tags [] st1 of
                  (images, st2) \<Rightarrow>
                    (case deletePhase env rc keepLast (sortImages env images)
                            (printSorted keepLast 0 (sortImages env images)
                               (Printf PrintSortedHeader st2)) of
                       (Inl p, st3) \<Rightarrow> (Inl p, st3)
                     | (Inr u, st3) \<Rightarrow> (Inr None, st3))))"

text \<open>Lines 391-395: the loop of \<open>main\<close> over the repositories.\<close>

fun cleanupAll ::
  "'w env \<Rightarrow> RegistryClient \<Rightarrow> int \<Rightarrow> string list \<Rightarrow> 'w state \<Rightarrow> (panic + unit) \<times> 'w state" where
  "cleanupAll env rc keepLast [] st = (Inr (), st)"
| "cleanupAll env rc keepLast (repo # repos) st =
     (case CleanupRepository env rc repo keepLast st of
        (Inl p, st1) \<Rightarrow> (Inl p, st1)
      | (Inr (Some err), st1) \<Rightarrow>
          cleanupAll env rc keepLast repos (Printf (PrintRepositoryError repo err) st1)
      | (Inr None, st1) \<Rightarrow> cleanupAll env rc keepLast repos st1)"

text \<open>
  \<open>main\<close>, given the process environment: it returns, exits through \<^verbatim>\<open>log.Fatalf\<close>, or
  panics.
\<close>

datatype exit = Returned | Fatal error | Panicked panic

definition main :: "'w env \<Rightarrow> (string \<Rightarrow> string) \<Rightarrow> 'w state \<Rightarrow> exit \<times> 'w state" where
  "main env getenv st =
     (let registryURL = (if getenv ''REGISTRY_URL'' = '''' then ''http://localhost:5000''
                         else getenv ''REGISTRY_URL'');
          client = NewRegistryClient registryURL (getenv ''REGISTRY_USERNAME'')
                     (getenv ''REGISTRY_PASSWORD'')
      in case GetRepositories env client (Printf (PrintBanner registryURL) st) of
           (Inl err, st1) \<Rightarrow> (Fatal err, st1)
         | (Inr repositories, st1) \<Rightarrow>
             if length repositories = 0 then (Returned, Printf PrintNoRepositories st1)
             else (case cleanupAll env client 2 repositories
                          (Printf (PrintFoundRepositories (int (length repositories))) st1) of
                     (Inl p, st2) \<Rightarrow> (Panicked p, st2)
                   | (Inr u, st2) \<Rightarrow> (Returned, Printf PrintFinished st2)))"

section \<open>What the properties speak about\<close>

text \<open>
  What \<^verbatim>\<open>sort.Slice\<close> promises for the comparison \<open>newer\<close>: the slice afterwards holds the same
  elements, and no element stands before one that compares less than it. The library
  documents the sort as not stable, and nothing more is assumed of it.
\<close>

definition sortsByCreated :: "'w env \<Rightarrow> bool" where
  "sortsByCreated env \<longleftrightarrow>
     (\<forall>images. mset (SortSlice env newer images) = mset images \<and>
               sorted_wrt (\<lambda>a b. \<not> newer b a) (SortSlice env newer images))"

text \<open>
  The registry never answers with a non-empty digest header shorter than 12 bytes.
\<close>

definition longDigests :: "'w env \<Rightarrow> bool" where
  "longDigests env \<longleftrightarrow>
     (\<forall>w req. case fst (Do env w req) of
                 Inl err \<Rightarrow> True
               | Inr resp \<Rightarrow> DockerContentDigest resp = '''' \<or> 12 \<le> length (DockerContentDigest resp))"

text \<open>A digest that line 348 can cut to 12 bytes.\<close>

definition longDigest :: "ImageInfo \<Rightarrow> bool" where
  "longDigest img \<longleftrightarrow> 12 \<le> length (Digest img)"

text \<open>The arguments interpolated into an error message.\<close>

fun errorArgs :: "error \<Rightarrow> arg list" where
  "errorArgs (LibError s) = []"
| "errorArgs (Errorf m as) = as"

text \<open>
  Reading the printed lines: the deletions started (line 347), the deletions reported
  (lines 350 and 352, with the error if any), the tags skipped for a failed digest lookup
  (line 305) and the repositories entered (line 287).
\<close>

fun deleteStarted :: "event \<Rightarrow> (string \<times> string) option" where
  "deleteStarted (PrintDeleting repository tag created digest) = Some (repository, tag)"
| "deleteStarted e = None"

fun deleteReported :: "event \<Rightarrow> (string \<times> string) option" where
  "deleteReported (PrintDeleteError repository tag err) = Some (repository, tag)"
| "deleteReported (PrintDeleted repository tag) = Some (repository, tag)"
| "deleteReported e = None"

fun digestWarned :: "event \<Rightarrow> string option" where
  "digestWarned (PrintWarnDigest repository tag err) = Some tag"
| "digestWarned e = None"

fun processing :: "event \<Rightarrow> string option" where
  "processing (PrintProcessing repository) = Some repository"
| "processing e = None"

text \<open>
  The images the listing shows with a given status (line 336), and the counts of the line
  that announces the deletions (line 343): images found, images kept, images to delete.
\<close>

fun listedAs :: "status \<Rightarrow> event \<Rightarrow> (string \<times> string) option" where
  "listedAs s (PrintSortedLine n repository tag created s') =
     (if s' = s then Some (repository, tag) else None)"
| "listedAs s e = None"

fun announced :: "event \<Rightarrow> (int \<times> int \<times> int) option" where
  "announced (PrintFound n k d) = Some (n, k, d)"
| "announced e = None"

text \<open>The lines the deletion loop prints (lines 263-272, 347, 350 and 352).\<close>

fun deletionEvent :: "event \<Rightarrow> bool" where
  "deletionEvent (PrintDeleting repository tag created digest) = True"
| "deletionEvent PrintDeleteUnsupported = True"
| "deletionEvent (PrintDeleteError repository tag err) = True"
| "deletionEvent (PrintDeleted repository tag) = True"
| "deletionEvent e = False"

definition printed :: "(event \<Rightarrow> 'a option) \<Rightarrow> 'w state \<Rightarrow> 'a list" where
  "printed f st = List.map_filter f (Out st)"

definition imageKey :: "ImageInfo \<Rightarrow> string \<times> string" where
  "imageKey img = (Repository img, Tag img)"

text \<open>The \<^verbatim>\<open>DELETE\<close> requests among the requests sent.\<close>

definition deletesSent :: "'w state \<Rightarrow> request list" where
  "deletesSent st = filter (\<lambda>req. Method req = DELETE) (Sent st)"

text \<open>
  The request of lines 166-176 (\<open>accept = manifest_v1\<close>) and of lines 194-203
  (\<open>accept = manifest_v2\<close>), once \<^verbatim>\<open>http.NewRequest\<close> has accepted the URL.
\<close>

definition manifestRequest :: "RegistryClient \<Rightarrow> string \<Rightarrow> string \<Rightarrow> string \<Rightarrow> request" where
  "manifestRequest rc repository tag accept =
     (SetBasicAuth rc \<lparr>Method = GET, URL = manifestURL rc repository tag, BasicAuth = None,
                        Accept = ''''\<rparr>)\<lparr>Accept := accept\<rparr>"

text \<open>The request of lines 237-246.\<close>

definition deleteRequest :: "RegistryClient \<Rightarrow> string \<Rightarrow> string \<Rightarrow> request" where
  "deleteRequest rc repository digest =
     (SetBasicAuth rc \<lparr>Method = DELETE, URL = manifestURL rc repository digest, BasicAuth = None,
                        Accept = ''''\<rparr>)\<lparr>Accept := manifest_v2\<rparr>"

text \<open>The registry answers the request, in every world.\<close>

definition answered :: "'w env \<Rightarrow> request \<Rightarrow> bool" where
  "answered env req \<longleftrightarrow> (\<forall>w. \<exists>resp w'. Do env w req = (Inr resp, w'))"

text \<open>The error message interpolates the string.\<close>

definition mentions :: "error \<Rightarrow> string \<Rightarrow> bool" where
  "mentions err s \<longleftrightarrow> ArgStr s \<in> set (errorArgs err)"

section \<open>Example registries\<close>

text \<open>
  Insertion sort, for the example environments: it meets \<open>sortsByCreated\<close> and keeps equal
  elements in their order.
\<close>

fun insertSorted :: "('a \<Rightarrow> 'a \<Rightarrow> bool) \<Rightarrow> 'a \<Rightarrow> 'a list \<Rightarrow> 'a list" where
  "insertSorted lt x [] = [x]"
| "insertSorted lt x (y # ys) = (if lt y x then y # insertSorted lt x ys else x # y # ys)"

fun insertionSort :: "('a \<Rightarrow> 'a \<Rightarrow> bool) \<Rightarrow> 'a list \<Rightarrow> 'a list" where
  "insertionSort lt [] = []"
| "insertionSort lt (x # xs) = insertSorted lt x (insertionSort lt xs)"

text \<open>
  An example registry answers by a table from method, URL and \<^verbatim>\<open>Accept\<close> header to a
  response or a transport error; a request outside the table is refused. Its clock starts
  at 1000 and ticks at each reading. The bodies are short names of JSON documents:
  \<^item> \<open>R\<close>: a catalog with the repository \<open>a\<close>;
  \<^item> \<open>T3\<close>, \<open>T2\<close>: tag lists \<open>1, 2, 3\<close> and \<open>1, 2\<close>;
  \<^item> \<open>M1\<close>, \<open>M2\<close>, \<open>M3\<close>, \<open>M0\<close>: schema-v1 manifests whose first history entry is the document
    \<open>c1\<close>, \<open>c2\<close>, \<open>c3\<close>, \<open>c0\<close>; \<open>c1\<close>, \<open>c2\<close>, \<open>c3\<close> are created at 100, 200, 300 and \<open>c0\<close> has no
    \<^verbatim>\<open>created\<close> field;
  \<^item> \<open>V1\<close>: a schema-v2 manifest with the config digest \<open>sha256:cfg1\<close>;
  \<^item> \<open>C1\<close>, \<open>C0\<close>: image configs, created at 150 and without a \<^verbatim>\<open>created\<close> field.
  Any other body is not JSON.
\<close>

type_synonym routes = "((httpMethod \<times> string \<times> string) \<times> (error + response)) list"

definition exampleDo :: "routes \<Rightarrow> nat \<Rightarrow> request \<Rightarrow> (error + response) \<times> nat" where
  "exampleDo routes w req =
     (case map_of routes (Method req, URL req, Accept req) of
        Some r \<Rightarrow> (r, w)
      | None \<Rightarrow> (Inl (LibError ''connection refused''), w))"

definition exampleEnv :: "routes \<Rightarrow> nat env" where
  "exampleEnv routes =
     \<lparr>NewRequestError = (\<lambda>m url. None),
      Do = exampleDo routes,
      Now = (\<lambda>w. (1000 + int w, Suc w)),
      DecodeRepositories =
        (\<lambda>b. if b = ''R'' then Inr \<lparr>Repositories = [''a'']\<rparr> else Inl (LibError ''json'')),
      DecodeTags =
        (\<lambda>b. if b = ''T3'' then Inr \<lparr>Name = ''a'', Tags = [''1'', ''2'', ''3'']\<rparr>
             else if b = ''T2'' then Inr \<lparr>Name = ''a'', Tags = [''1'', ''2'']\<rparr>
             else Inl (LibError ''json'')),
      DecodeManifest =
        (\<lambda>b. if b = ''M1'' then Inr \<lparr>SchemaVersion = 1, History = [''c1'']\<rparr>
             else if b = ''M2'' then Inr \<lparr>SchemaVersion = 1, History = [''c2'']\<rparr>
             else if b = ''M3'' then Inr \<lparr>SchemaVersion = 1, History = [''c3'']\<rparr>
             else if b = ''M0'' then Inr \<lparr>SchemaVersion = 1, History = [''c0'']\<rparr>
             else Inl (LibError ''json'')),
      UnmarshalV1Compatibility =
        (\<lambda>b. if b = ''c1'' then Inr \<lparr>V1Created = 100\<rparr>
             else if b = ''c2'' then Inr \<lparr>V1Created = 200\<rparr>
             else if b = ''c3'' then Inr \<lparr>V1Created = 300\<rparr>
             else if b = ''c0'' then Inr \<lparr>V1Created = zero_time\<rparr>
             else Inl (LibError ''json'')),
      DecodeManifestV2 =
        (\<lambda>b. if b = ''V1''
             then Inr \<lparr>SchemaVersionV2 = 2, MediaType = manifest_v2, ConfigDigest = ''sha256:cfg1''\<rparr>
             else Inl (LibError ''json'')),
      DecodeConfig =
        (\<lambda>b. if b = ''C1'' then Inr \<lparr>ConfigCreated = 150\<rparr>
             else if b = ''C0'' then Inr \<lparr>ConfigCreated = zero_time\<rparr>
             else Inl (LibError ''json'')),
      SortSlice = insertionSort\<rparr>"

definition answer :: "int \<Rightarrow> string \<Rightarrow> string \<Rightarrow> error + response" where
  "answer code digest body = Inr \<lparr>StatusCode = code, DockerContentDigest = digest, Body = body\<rparr>"

definition rc0 :: RegistryClient where
  "rc0 = \<lparr>BaseURL = ''r'', Username = '''', Password = ''''\<rparr>"

definition st0 :: "nat state" where
  "st0 = \<lparr>World = 0, Sent = [], Out = []\<rparr>"

definition exampleImage :: "string \<Rightarrow> string \<Rightarrow> Time \<Rightarrow> ImageInfo" where
  "exampleImage tag digest created = \<lparr>Repository = ''a'', Tag = tag, Digest = digest, Created = created\<rparr>"

text \<open>
  The repository \<open>a\<close> with tags 1, 2, 3 created at 100, 200, 300. The tag list is the
  document \<open>tagsBody\<close>, the digest lookup of tag 2 is answered by \<open>head2\<close>, and deleting the
  manifest of tag 1 is answered with the status \<open>code\<close> and the body \<open>gone\<close>. Nothing else is
  routed: the repository \<open>b\<close> cannot be reached, and neither can the manifests of tags 2
  and 3 be deleted.
\<close>

definition routesA :: "string \<Rightarrow> (error + response) \<Rightarrow> int \<Rightarrow> routes" where
  "routesA tagsBody head2 code =
    [((GET, ''r/v2/_catalog'', manifest_v2), answer 200 '''' ''R''),
     ((GET, ''r/v2/a/tags/list'', manifest_v2), answer 200 '''' tagsBody),
     ((HEAD, ''r/v2/a/manifests/1'', manifest_v2), answer 200 ''sha256:00001'' ''''),
     ((HEAD, ''r/v2/a/manifests/2'', manifest_v2), head2),
     ((HEAD, ''r/v2/a/manifests/3'', manifest_v2), answer 200 ''sha256:00003'' ''''),
     ((GET, ''r/v2/a/manifests/1'', manifest_v1), answer 200 '''' ''M1''),
     ((GET, ''r/v2/a/manifests/2'', manifest_v1), answer 200 '''' ''M2''),
     ((GET, ''r/v2/a/manifests/3'', manifest_v1), answer 200 '''' ''M3''),
     ((DELETE, ''r/v2/a/manifests/sha256:00001'', manifest_v2), answer code '''' ''gone'')]"

definition head2ok :: "error + response" where
  "head2ok = answer 200 ''sha256:00002'' ''''"

definition images3 :: "ImageInfo list" where
  "images3 =
    [exampleImage ''1'' ''sha256:00001'' 100,
     exampleImage ''2'' ''sha256:00002'' 200,
     exampleImage ''3'' ''sha256:00003'' 300]"

section \<open>sort.Slice in the Go standard library\<close>

text \<open>
  \<^verbatim>\<open>sort.Slice\<close> is library code, not part of the repository. This section follows package
  \<^verbatim>\<open>sort\<close> of Go 1.19 and later (\<^verbatim>\<open>Slice\<close> in \<^verbatim>\<open>slice.go\<close>, \<^verbatim>\<open>pdqsort_func\<close> and the
  functions it calls in \<^verbatim>\<open>zsortfunc.go\<close>): a pattern-defeating quicksort that sorts the
  slice in place through \<^verbatim>\<open>data.Less(i, j)\<close> and \<^verbatim>\<open>data.Swap(i, j)\<close>. The slice is a list,
  indices are Go ints, and the library keeps every index within the bounds of the slice.

  Three parts of the library are left out, and the model has no result (\<open>None\<close>) where a
  run enters them: \<^verbatim>\<open>breakPatterns_func\<close> (after an unbalanced partition that leaves more
  than 12 elements), \<^verbatim>\<open>heapSort_func\<close> (when \<open>limit\<close> is 0, which takes calls of
  \<^verbatim>\<open>breakPatterns_func\<close> first) and the shifting of \<^verbatim>\<open>partialInsertionSort_func\<close> (slices of
  50 elements and more). The recursion is bounded by fuel: each call and each round of the
  loop has fewer elements than the one before, so a slice of \<open>n\<close> elements gets \<open>n + 1\<close>.
\<close>

text \<open>\<^verbatim>\<open>data.Less(i, j)\<close> and \<^verbatim>\<open>data.Swap(i, j)\<close>, for the comparison \<open>lt\<close> on elements.\<close>

definition dataLess :: "('a \<Rightarrow> 'a \<Rightarrow> bool) \<Rightarrow> 'a list \<Rightarrow> int \<Rightarrow> int \<Rightarrow> bool" where
  "dataLess lt xs i j = lt (xs ! nat i) (xs ! nat j)"

definition dataSwap :: "'a list \<Rightarrow> int \<Rightarrow> int \<Rightarrow> 'a list" where
  "dataSwap xs i j = xs[nat i := xs ! nat j, nat j := xs ! nat i]"

text \<open>
  \<^verbatim>\<open>insertionSort_func(data, a, b)\<close>: for \<open>i\<close> from \<open>a + 1\<close> to \<open>b - 1\<close>, the element at \<open>i\<close>
  is swapped with its left neighbour while \<open>j > a\<close> and \<^verbatim>\<open>data.Less(j, j-1)\<close>.
\<close>

function insertionSwaps :: "('a \<Rightarrow> 'a \<Rightarrow> bool) \<Rightarrow> int \<Rightarrow> 'a list \<Rightarrow> int \<Rightarrow> 'a list" where
  "insertionSwaps lt a xs j =
     (if j > a \<and> dataLess lt xs j (j - 1)
      then insertionSwaps lt a (dataSwap xs j (j - 1)) (j - 1)
      else xs)"
  by pat_completeness auto
termination
  by (relation "measure (\<lambda>(lt, a, xs, j). nat (j - a))") auto

declare insertionSwaps.simps [simp del]

function insertionLoop :: "('a \<Rightarrow> 'a \<Rightarrow> bool) \<Rightarrow> int \<Rightarrow> int \<Rightarrow> 'a list \<Rightarrow> int \<Rightarrow> 'a list" where
  "insertionLoop lt a b xs i =
     (if i < b then insertionLoop lt a b (insertionSwaps lt a xs i) (i + 1) else xs)"
  by pat_completeness auto
termination
  by (relation "measure (\<lambda>(lt, a, b, xs, i). nat (b - i))") auto

declare insertionLoop.simps [simp del]

definition insertionSort_func :: "('a \<Rightarrow> 'a \<Rightarrow> bool) \<Rightarrow> 'a list \<Rightarrow> int \<Rightarrow> int \<Rightarrow> 'a list" where
  "insertionSort_func lt xs a b = insertionLoop lt a b xs (a + 1)"

text \<open>
  \<^verbatim>\<open>choosePivot_func(data, a, b)\<close>: the median of the elements at a quarter, a half and three
  quarters of the slice when it has 8 elements or more (of the medians of three adjacent
  elements each, from 50 elements on), with the number of swaps the median took as a hint.
\<close>

datatype sortedHint = unknownHint | increasingHint | decreasingHint

definition order2_func ::
  "('a \<Rightarrow> 'a \<Rightarrow> bool) \<Rightarrow> 'a list \<Rightarrow> int \<Rightarrow> int \<Rightarrow> nat \<Rightarrow> int \<times> int \<times> nat" where
  "order2_func lt xs a b swaps =
     (if dataLess lt xs b a then (b, a, swaps + 1) else (a, b, swaps))"

definition median_func ::
  "('a \<Rightarrow> 'a \<Rightarrow> bool) \<Rightarrow> 'a list \<Rightarrow> int \<Rightarrow> int \<Rightarrow> int \<Rightarrow> nat \<Rightarrow> int \<times> nat" where
  "median_func lt xs a b c swaps =
     (case order2_func lt xs a b swaps of (a, b, swaps) \<Rightarrow>
      case order2_func lt xs b c swaps of (b, c, swaps) \<Rightarrow>
      case order2_func lt xs a b swaps of (a, b, swaps) \<Rightarrow> (b, swaps))"

definition medianAdjacent_func ::
  "('a \<Rightarrow> 'a \<Rightarrow> bool) \<Rightarrow> 'a list \<Rightarrow> int \<Rightarrow> nat \<Rightarrow> int \<times> nat" where
  "medianAdjacent_func lt xs a swaps = median_func lt xs (a - 1) a (a + 1) swaps"

definition choosePivot_func ::
  "('a \<Rightarrow> 'a \<Rightarrow> bool) \<Rightarrow> 'a list \<Rightarrow> int \<Rightarrow> int \<Rightarrow> int \<times> sortedHint" where
  "choosePivot_func lt xs a b =
     (let l = b - a;
          i = a + l div 4 * 1;
          j = a + l div 4 * 2;
          k = a + l div 4 * 3;
          (j, swaps) =
            (if l \<ge> 8
             then (if l \<ge> 50
                   then (case medianAdjacent_func lt xs i 0 of (i, swaps) \<Rightarrow>
                         case medianAdjacent_func lt xs j swaps of (j, swaps) \<Rightarrow>
                         case medianAdjacent_func lt xs k swaps of (k, swaps) \<Rightarrow>
                           median_func lt xs i j k swaps)
                   else median_func lt xs i j k 0)
             else (j, 0))
      in if swaps = 0 then (j, increasingHint)
         else if swaps = 12 then (j, decreasingHint)
         else (j, unknownHint))"

text \<open>\<^verbatim>\<open>reverseRange_func(data, a, b)\<close>.\<close>

function reverseRange_loop :: "'a list \<Rightarrow> int \<Rightarrow> int \<Rightarrow> 'a list" where
  "reverseRange_loop xs i j =
     (if i < j then reverseRange_loop (dataSwap xs i j) (i + 1) (j - 1) else xs)"
  by pat_completeness auto
termination
  by (relation "measure (\<lambda>(xs, i, j). nat (j - i))") auto

declare reverseRange_loop.simps [simp del]

definition reverseRange_func :: "'a list \<Rightarrow> int \<Rightarrow> int \<Rightarrow> 'a list" where
  "reverseRange_func xs a b = reverseRange_loop xs a (b - 1)"

text \<open>
  \<^verbatim>\<open>partialInsertionSort_func(data, a, b)\<close>: true when the slice is in order already; false,
  with nothing moved, when it is not and has fewer than 50 elements.
\<close>

function ascending :: "('a \<Rightarrow> 'a \<Rightarrow> bool) \<Rightarrow> 'a list \<Rightarrow> int \<Rightarrow> int \<Rightarrow> int" where
  "ascending lt xs b i =
     (if i < b \<and> \<not> dataLess lt xs i (i - 1) then ascending lt xs b (i + 1) else i)"
  by pat_completeness auto
termination
  by (relation "measure (\<lambda>(lt, xs, b, i). nat (b - i))") auto

declare ascending.simps [simp del]

definition partialInsertionSort_func ::
  "('a \<Rightarrow> 'a \<Rightarrow> bool) \<Rightarrow> 'a list \<Rightarrow> int \<Rightarrow> int \<Rightarrow> bool option" where
  "partialInsertionSort_func lt xs a b =
     (let i = ascending lt xs b (a + 1)
      in if i = b then Some True
         else if b - a < 50 then Some False
         else None)"

text \<open>
  \<^verbatim>\<open>partition_func(data, a, b, pivot)\<close>: the pivot goes to \<open>a\<close>; \<open>i\<close> moves up over the
  elements less than the pivot and \<open>j\<close> down over the others, the elements at \<open>i\<close> and \<open>j\<close> are
  swapped, until \<open>i > j\<close>; then the pivot goes to \<open>j\<close>. The results are the slice, the place of
  the pivot and whether no swap was needed.
\<close>

function partitionUp :: "('a \<Rightarrow> 'a \<Rightarrow> bool) \<Rightarrow> 'a list \<Rightarrow> int \<Rightarrow> int \<Rightarrow> int \<Rightarrow> int" where
  "partitionUp lt xs a i j =
     (if i \<le> j \<and> dataLess lt xs i a then partitionUp lt xs a (i + 1) j else i)"
  by pat_completeness auto
termination
  by (relation "measure (\<lambda>(lt, xs, a, i, j). nat (j + 1 - i))") auto

declare partitionUp.simps [simp del]

function partitionDown :: "('a \<Rightarrow> 'a \<Rightarrow> bool) \<Rightarrow> 'a list \<Rightarrow> int \<Rightarrow> int \<Rightarrow> int \<Rightarrow> int" where
  "partitionDown lt xs a i j =
     (if i \<le> j \<and> \<not> dataLess lt xs j a then partitionDown lt xs a i (j - 1) else j)"
  by pat_completeness auto
termination
  by (relation "measure (\<lambda>(lt, xs, a, i, j). nat (j + 1 - i))") auto

declare partitionDown.simps [simp del]

lemma partitionUp_ge: "i \<le> partitionUp lt xs a i j"
proof (induction lt xs a i j rule: partitionUp.induct)
  case (1 lt xs a i j)
  show ?case
  proof (cases "i \<le> j \<and> dataLess lt xs i a")
    case True
    with 1 show ?thesis by (subst partitionUp.simps) simp
  next
    case False
    then show ?thesis by (subst partitionUp.simps) auto
  qed
qed

lemma partitionDown_le: "partitionDown lt xs a i j \<le> j"
proof (induction lt xs a i j rule: partitionDown.induct)
  case (1 lt xs a i j)
  show ?case
  proof (cases "i \<le> j \<and> \<not> dataLess lt xs j a")
    case True
    with 1 show ?thesis by (subst partitionDown.simps) simp
  next
    case False
    then show ?thesis by (subst partitionDown.simps) auto
  qed
qed

function partitionLoop ::
  "('a \<Rightarrow> 'a \<Rightarrow> bool) \<Rightarrow> int \<Rightarrow> 'a list \<Rightarrow> int \<Rightarrow> int \<Rightarrow> 'a list \<times> int" where
  "partitionLoop lt a xs i j =
     (let i = partitionUp lt xs a i j;
          j = partitionDown lt xs a i j
      in if i > j then (xs, j)
         else partitionLoop lt a (dataSwap xs i j) (i + 1) (j - 1))"
  by pat_completeness auto
termination
proof (relation "measure (\<lambda>(lt, a, xs, i, j). nat (j + 1 - i))", goal_cases)
  case 1
  show ?case by simp
next
  case (2 lt a xs i j i' j')
  then have "i \<le> i'" "j' \<le> j"
    using partitionUp_ge [of i lt xs a j] partitionDown_le [of lt xs a i' j] by simp_all
  with 2 show ?case by simp
qed

declare partitionLoop.simps [simp del]

definition partition_func ::
  "('a \<Rightarrow> 'a \<Rightarrow> bool) \<Rightarrow> 'a list \<Rightarrow> int \<Rightarrow> int \<Rightarrow> int \<Rightarrow> 'a list \<times> int \<times> bool" where
  "partition_func lt xs a b pivot =
     (let xs = dataSwap xs a pivot;
          i = partitionUp lt xs a (a + 1) (b - 1);
          j = partitionDown lt xs a i (b - 1)
      in if i > j then (dataSwap xs j a, j, True)
         else (case partitionLoop lt a (dataSwap xs i j) (i + 1) (j - 1) of
                 (xs, j) \<Rightarrow> (dataSwap xs j a, j, False)))"

text \<open>
  \<^verbatim>\<open>partitionEqual_func(data, a, b, pivot)\<close>: the elements equal to the pivot go before the
  place returned, the greater ones after it.
\<close>

function partitionEqualUp :: "('a \<Rightarrow> 'a \<Rightarrow> bool) \<Rightarrow> 'a list \<Rightarrow> int \<Rightarrow> int \<Rightarrow> int \<Rightarrow> int" where
  "partitionEqualUp lt xs a i j =
     (if i \<le> j \<and> \<not> dataLess lt xs a i then partitionEqualUp lt xs a (i + 1) j else i)"
  by pat_completeness auto
termination
  by (relation "measure (\<lambda>(lt, xs, a, i, j). nat (j + 1 - i))") auto

declare partitionEqualUp.simps [simp del]

function partitionEqualDown :: "('a \<Rightarrow> 'a \<Rightarrow> bool) \<Rightarrow> 'a list \<Rightarrow> int \<Rightarrow> int \<Rightarrow> int \<Rightarrow> int" where
  "partitionEqualDown lt xs a i j =
     (if i \<le> j \<and> dataLess lt xs a j then partitionEqualDown lt xs a i (j - 1) else j)"
  by pat_completeness auto
termination
  by (relation "measure (\<lambda>(lt, xs, a, i, j). nat (j + 1 - i))") auto

declare partitionEqualDown.simps [simp del]

lemma partitionEqualUp_ge: "i \<le> partitionEqualUp lt xs a i j"
proof (induction lt xs a i j rule: partitionEqualUp.induct)
  case (1 lt xs a i j)
  show ?case
  proof (cases "i \<le> j \<and> \<not> dataLess lt xs a i")
    case True
    with 1 show ?thesis by (subst partitionEqualUp.simps) simp
  next
    case False
    then show ?thesis by (subst partitionEqualUp.simps) auto
  qed
qed

lemma partitionEqualDown_le: "partitionEqualDown lt xs a i j \<le> j"
proof (induction lt xs a i j rule: partitionEqualDown.induct)
  case (1 lt xs a i j)
  show ?case
  proof (cases "i \<le> j \<and> dataLess lt xs a j")
    case True
    with 1 show ?thesis by (subst partitionEqualDown.simps) simp
  next
    case False
    then show ?thesis by (subst partitionEqualDown.simps) auto
  qed
qed

function partitionEqualLoop ::
  "('a \<Rightarrow> 'a \<Rightarrow> bool) \<Rightarrow> int \<Rightarrow> 'a list \<Rightarrow> int \<Rightarrow> int \<Rightarrow> 'a list \<times> int" where
  "partitionEqualLoop lt a xs i j =
     (let i = partitionEqualUp lt xs a i j;
          j = partitionEqualDown lt xs a i j
      in if i > j then (xs, i)
         else partitionEqualLoop lt a (dataSwap xs i j) (i + 1) (j - 1))"
  by pat_completeness auto
termination
proof (relation "measure (\<lambda>(lt, a, xs, i, j). nat (j + 1 - i))", goal_cases)
  case 1
  show ?case by simp
next
  case (2 lt a xs i j i' j')
  then have "i \<le> i'" "j' \<le> j"
    using partitionEqualUp_ge [of i lt xs a j] partitionEqualDown_le [of lt xs a i' j] by simp_all
  with 2 show ?case by simp
qed

declare partitionEqualLoop.simps [simp del]

definition partitionEqual_func ::
  "('a \<Rightarrow> 'a \<Rightarrow> bool) \<Rightarrow> 'a list \<Rightarrow> int \<Rightarrow> int \<Rightarrow> int \<Rightarrow> 'a list \<times> int" where
  "partitionEqual_func lt xs a b pivot =
     partitionEqualLoop lt a (dataSwap xs a pivot) (a + 1) (b - 1)"

text \<open>
  \<^verbatim>\<open>pdqsort_func(data, a, b, limit)\<close>, from the state of its loop on: the bounds \<open>a\<close> and \<open>b\<close>,
  \<open>limit\<close>, \<open>wasBalanced\<close> and \<open>wasPartitioned\<close>. A call starts the loop with both flags true.
\<close>

fun pdqsort_func ::
  "nat \<Rightarrow> ('a \<Rightarrow> 'a \<Rightarrow> bool) \<Rightarrow> 'a list \<Rightarrow> int \<Rightarrow> int \<Rightarrow> nat \<Rightarrow> bool \<Rightarrow> bool \<Rightarrow> 'a list option" where
  "pdqsort_func 0 lt xs a b limit wasBalanced wasPartitioned = None"
| "pdqsort_func (Suc fuel) lt xs a b limit wasBalanced wasPartitioned =
     (if b - a \<le> 12 then Some (insertionSort_func lt xs a b)
      else if limit = 0 then None
      else if \<not> wasBalanced then None
      else
        (case choosePivot_func lt xs a b of (pivot, hint) \<Rightarrow>
         case (if hint = decreasingHint
               then (reverseRange_func xs a b, (b - 1) - (pivot - a), increasingHint)
               else (xs, pivot, hint)) of (xs, pivot, hint) \<Rightarrow>
         case (if wasBalanced \<and> wasPartitioned \<and> hint = increasingHint
               then partialInsertionSort_func lt xs a b else Some False) of
           None \<Rightarrow> None
         | Some True \<Rightarrow> Some xs
         | Some False \<Rightarrow>
             if a > 0 \<and> \<not> dataLess lt xs (a - 1) pivot
             then (case partitionEqual_func lt xs a b pivot of
                     (xs, mid) \<Rightarrow> pdqsort_func fuel lt xs mid b limit wasBalanced wasPartitioned)
             else
               (case partition_func lt xs a b pivot of (xs, mid, alreadyPartitioned) \<Rightarrow>
                  if mid - a < b - mid
                  then (case pdqsort_func fuel lt xs a mid limit True True of
                          None \<Rightarrow> None
                        | Some xs \<Rightarrow>
                            pdqsort_func fuel lt xs (mid + 1) b limit
                              (mid - a \<ge> (b - a) div 8) alreadyPartitioned)
                  else (case pdqsort_func fuel lt xs (mid + 1) b limit True True of
                          None \<Rightarrow> None
                        | Some xs \<Rightarrow>
                            pdqsort_func fuel lt xs a mid limit
                              (b - mid \<ge> (b - a) div 8) alreadyPartitioned))))"

text \<open>
  \<^verbatim>\<open>bits.Len\<close>, and \<^verbatim>\<open>sort.Slice\<close>: \<^verbatim>\<open>pdqsort_func(data, 0, length, bits.Len(uint(length)))\<close>.
\<close>

fun bitsLen :: "nat \<Rightarrow> nat" where
  "bitsLen n = (if n = 0 then 0 else Suc (bitsLen (n div 2)))"

declare bitsLen.simps [simp del]

definition sortSlice :: "('a \<Rightarrow> 'a \<Rightarrow> bool) \<Rightarrow> 'a list \<Rightarrow> 'a list option" where
  "sortSlice lt xs =
     pdqsort_func (Suc (length xs)) lt xs 0 (int (length xs)) (bitsLen (length xs)) True True"

text \<open>
  The example environment with this \<^verbatim>\<open>sort.Slice\<close>, for the slices it has a result on, and
  thirteen images of the repository \<open>a\<close>: the tags \<open>1\<close> and \<open>2\<close> were created at the same
  time, the tag \<open>4\<close> after them and the others before.
\<close>

definition goEnv :: "routes \<Rightarrow> nat env" where
  "goEnv routes = (exampleEnv routes)\<lparr>SortSlice := (\<lambda>lt xs. the (sortSlice lt xs))\<rparr>"

definition images13 :: "ImageInfo list" where
  "images13 =
    [exampleImage ''1'' ''sha256:00001'' 80,
     exampleImage ''2'' ''sha256:00002'' 80,
     exampleImage ''3'' ''sha256:00003'' 58,
     exampleImage ''4'' ''sha256:00004'' 90,
     exampleImage ''5'' ''sha256:00005'' 60,
     exampleImage ''6'' ''sha256:00006'' 59,
     exampleImage ''7'' ''sha256:00007'' 70,
     exampleImage ''8'' ''sha256:00008'' 50,
     exampleImage ''9'' ''sha256:00009'' 49,
     exampleImage ''10'' ''sha256:00010'' 48,
     exampleImage ''11'' ''sha256:00011'' 47,
     exampleImage ''12'' ''sha256:00012'' 46,
     exampleImage ''13'' ''sha256:00013'' 45]"

text \<open>The same images in another order: those at the indices 3, 1, 0, 6 and so on.\<close>

definition sorted13 :: "ImageInfo list" where
  "sorted13 = map ((!) images13) [3, 1, 0, 6, 4, 5, 2, 7, 8, 9, 10, 11, 12]"

section \<open>Evaluating the example registries\<close>

lemma manifest_types_differ: "manifest_v1 \<noteq> manifest_v2" "manifest_v2 \<noteq> manifest_v1"
  by (simp_all add: manifest_v1_def manifest_v2_def)

lemmas example_simps =
  exampleEnv_def exampleDo_def routesA_def head2ok_def answer_def rc0_def st0_def
  makeRequest_def NewRequest_def ClientDo_def SetBasicAuth_def manifestURL_def Printf_def
  TimeNow_def GetTags_def GetManifestDigest_def GetImageCreated_def createdV1_def createdV2_def
  resolveCreated_def DeleteManifest_def manifest_types_differ

lemmas run_simps =
  CleanupRepository_def deletePhase_def sortImages_def sliceFrom_def sliceTo_def newer_def
  After_def imageStatus_def

lemma longDigests_exampleEnv:
  assumes "list_all (\<lambda>(k, r). case r of Inl err \<Rightarrow> True
      | Inr resp \<Rightarrow> DockerContentDigest resp = '''' \<or> 12 \<le> length (DockerContentDigest resp)) routes"
  shows "longDigests (exampleEnv routes)"
proof -
  have "case fst (exampleDo routes w req) of Inl err \<Rightarrow> True
      | Inr resp \<Rightarrow> DockerContentDigest resp = '''' \<or> 12 \<le> length (DockerContentDigest resp)"
    for w req
  proof (cases "map_of routes (Method req, URL req, Accept req)")
    case None
    then show ?thesis by (simp add: exampleDo_def)
  next
    case (Some r)
    then have "((Method req, URL req, Accept req), r) \<in> set routes"
      by (rule map_of_SomeD)
    with assms have "case r of Inl err \<Rightarrow> True
      | Inr resp \<Rightarrow> DockerContentDigest resp = '''' \<or> 12 \<le> length (DockerContentDigest resp)"
      by (auto simp: list_all_iff)
    with Some show ?thesis by (simp add: exampleDo_def)
  qed
  then show ?thesis by (simp add: longDigests_def exampleEnv_def)
qed

lemma longDigests_routesA:
  "longDigests (exampleEnv (routesA tagsBody head2ok code))"
  by (rule longDigests_exampleEnv) (simp add: routesA_def head2ok_def answer_def)

section \<open>Sorting\<close>

lemma mset_insertSorted: "mset (insertSorted lt x ys) = add_mset x (mset ys)"
  by (induction ys) simp_all

lemma mset_insertionSort: "mset (insertionSort lt xs) = mset xs"
  by (induction xs) (simp_all add: mset_insertSorted)

lemma set_insertSorted: "set (insertSorted lt x ys) = insert x (set ys)"
  using mset_insertSorted [of lt x ys] by (metis set_mset_add_mset_insert set_mset_mset)

lemma sorted_insertSorted_newer:
  "sorted_wrt (\<lambda>a b. \<not> newer b a) ys \<Longrightarrow>
     sorted_wrt (\<lambda>a b. \<not> newer b a) (insertSorted newer x ys)"
  by (induction ys) (auto simp: set_insertSorted newer_def After_def)

lemma sorted_insertionSort_newer: "sorted_wrt (\<lambda>a b. \<not> newer b a) (insertionSort newer xs)"
  by (induction xs) (simp_all add: sorted_insertSorted_newer)

lemma sortsByCreated_exampleEnv: "sortsByCreated (exampleEnv routes)"
  by (simp add: sortsByCreated_def exampleEnv_def mset_insertionSort sorted_insertionSort_newer)

lemma mset_sortImages: "sortsByCreated env \<Longrightarrow> mset (sortImages env images) = mset images"
  by (simp add: sortsByCreated_def sortImages_def)

lemma length_sortImages: "sortsByCreated env \<Longrightarrow> length (sortImages env images) = length images"
  using mset_sortImages [of env images] by (metis size_mset)

lemma set_sortImages: "sortsByCreated env \<Longrightarrow> set (sortImages env images) = set images"
  using mset_sortImages [of env images] by (metis set_mset_mset)

lemma sorted_sortImages:
  "sortsByCreated env \<Longrightarrow> sorted_wrt (\<lambda>a b. Created b \<le> Created a) (sortImages env images)"
proof -
  assume "sortsByCreated env"
  then have "sorted_wrt (\<lambda>a b. \<not> newer b a) (sortImages env images)"
    by (simp add: sortsByCreated_def sortImages_def)
  moreover have "(\<lambda>a b. \<not> newer b a) = (\<lambda>a b. Created b \<le> Created a)"
    by (auto simp: newer_def After_def fun_eq_iff)
  ultimately show ?thesis by simp
qed

section \<open>The retention plan\<close>

lemma KeepSet_enumerate:
  "map snd (filter (\<lambda>(i, img). imageStatus keepLast i = Keep) (enumerate n images)) =
     take (nat keepLast - n) images"
proof (induction images arbitrary: n)
  case Nil
  then show ?case by simp
next
  case (Cons img images)
  show ?case
  proof (cases "int n < keepLast")
    case True
    then have "nat keepLast - n = Suc (nat keepLast - Suc n)" by linarith
    with True Cons.IH [of "Suc n"] show ?thesis
      by (simp add: imageStatus_def)
  next
    case False
    then have "nat keepLast - n = 0" "nat keepLast - Suc n = 0" by linarith+
    with False Cons.IH [of "Suc n"] show ?thesis
      by (simp add: imageStatus_def)
  qed
qed

lemma KeepSet_take: "KeepSet keepLast images = take (nat keepLast) images"
  using KeepSet_enumerate [of keepLast 0 images] by (simp add: KeepSet_def)

lemma DeleteSet_drop:
  "0 \<le> keepLast \<Longrightarrow> keepLast < int (length images) \<Longrightarrow>
     DeleteSet keepLast images = Inr (drop (nat keepLast) images)"
  by (simp add: DeleteSet_def sliceFrom_def)

lemma kept_not_older:
  assumes "sorted_wrt (\<lambda>a b. Created b \<le> Created a) images"
    and "k \<in> set (take n images)" and "d \<in> set (drop n images)"
  shows "Created d \<le> Created k"
proof -
  have "sorted_wrt (\<lambda>a b. Created b \<le> Created a) (take n images @ drop n images)"
    using assms(1) by simp
  then show ?thesis
    using assms(2,3) unfolding sorted_wrt_append by blast
qed

section \<open>What the client calls send and print\<close>

lemma printed_Printf:
  "printed f (Printf e st) = printed f st @ (case f e of None \<Rightarrow> [] | Some x \<Rightarrow> [x])"
  by (simp add: printed_def Printf_def List.map_filter_def split: option.splits)

lemma Sent_Printf: "Sent (Printf e st) = Sent st"
  by (simp add: Printf_def)

lemma deletesSent_Printf: "deletesSent (Printf e st) = deletesSent st"
  by (simp add: deletesSent_def Printf_def)

lemma TimeNow_frame:
  "Sent (snd (TimeNow env st)) = Sent st" "Out (snd (TimeNow env st)) = Out st"
  by (simp_all add: TimeNow_def split: prod.splits)

lemma printed_TimeNow: "printed f (snd (TimeNow env st)) = printed f st"
  by (simp add: printed_def TimeNow_frame)

lemma deletesSent_TimeNow: "deletesSent (snd (TimeNow env st)) = deletesSent st"
  by (simp add: deletesSent_def TimeNow_frame)

lemma ClientDo_frame:
  "Out (snd (ClientDo env req st)) = Out st"
  "Sent (snd (ClientDo env req st)) = Sent st @ [req]"
  by (simp_all add: ClientDo_def split: prod.splits)

lemma printed_ClientDo: "printed f (snd (ClientDo env req st)) = printed f st"
  by (simp add: printed_def ClientDo_frame)

lemma deletesSent_ClientDo:
  "Method req \<noteq> DELETE \<Longrightarrow> deletesSent (snd (ClientDo env req st)) = deletesSent st"
  by (simp add: deletesSent_def ClientDo_frame)

lemma Method_SetBasicAuth: "Method ((SetBasicAuth rc req)\<lparr>Accept := a\<rparr>) = Method req"
  by (simp add: SetBasicAuth_def)

lemma printed_makeRequest: "printed f (snd (makeRequest env rc m url st)) = printed f st"
  by (simp add: makeRequest_def printed_ClientDo split: sum.splits)

lemma deletesSent_makeRequest:
  "m \<noteq> DELETE \<Longrightarrow> deletesSent (snd (makeRequest env rc m url st)) = deletesSent st"
  by (auto simp: makeRequest_def NewRequest_def deletesSent_ClientDo Method_SetBasicAuth
      split: sum.splits option.splits)

lemma printed_GetTags: "printed f (snd (GetTags env rc repository st)) = printed f st"
  using printed_makeRequest [of f env rc GET "BaseURL rc @ ''/v2/'' @ repository @ ''/tags/list''" st]
  by (auto simp: GetTags_def split: prod.splits sum.splits)

lemma deletesSent_GetTags: "deletesSent (snd (GetTags env rc repository st)) = deletesSent st"
  using deletesSent_makeRequest [of GET env rc "BaseURL rc @ ''/v2/'' @ repository @ ''/tags/list''" st]
  by (auto simp: GetTags_def split: prod.splits sum.splits)

lemma printed_GetManifestDigest:
  "printed f (snd (GetManifestDigest env rc repository tag st)) = printed f st"
  using printed_makeRequest [of f env rc HEAD "manifestURL rc repository tag" st]
  by (auto simp: GetManifestDigest_def split: prod.splits sum.splits)

lemma deletesSent_GetManifestDigest:
  "deletesSent (snd (GetManifestDigest env rc repository tag st)) = deletesSent st"
  using deletesSent_makeRequest [of HEAD env rc "manifestURL rc repository tag" st]
  by (auto simp: GetManifestDigest_def split: prod.splits sum.splits)

lemma printed_createdV2:
  "printed f (snd (createdV2 env rc repository resp st)) = printed f st"
proof (cases "StatusCode resp = 200")
  case False
  then show ?thesis by (simp add: createdV2_def)
next
  case True
  show ?thesis
  proof (cases "DecodeManifestV2 env (Body resp)")
    case (Inl err)
    with True show ?thesis by (simp add: createdV2_def)
  next
    case (Inr manifestV2)
    with True printed_makeRequest [of f env rc GET
        "BaseURL rc @ ''/v2/'' @ repository @ ''/blobs/'' @ ConfigDigest manifestV2" st]
    show ?thesis
      by (auto simp: createdV2_def split: prod.splits sum.splits)
  qed
qed

lemma deletesSent_createdV2:
  "deletesSent (snd (createdV2 env rc repository resp st)) = deletesSent st"
proof (cases "StatusCode resp = 200")
  case False
  then show ?thesis by (simp add: createdV2_def)
next
  case True
  show ?thesis
  proof (cases "DecodeManifestV2 env (Body resp)")
    case (Inl err)
    with True show ?thesis by (simp add: createdV2_def)
  next
    case (Inr manifestV2)
    with True deletesSent_makeRequest [of GET env rc
        "BaseURL rc @ ''/v2/'' @ repository @ ''/blobs/'' @ ConfigDigest manifestV2" st]
    show ?thesis
      by (auto simp: createdV2_def split: prod.splits sum.splits)
  qed
qed

lemma ClientDo_eqD:
  "ClientDo env req st = (r, st1) \<Longrightarrow> Out st1 = Out st \<and> Sent st1 = Sent st @ [req]"
  by (auto simp: ClientDo_def split: prod.splits)

lemma createdV2_eqD:
  "createdV2 env rc repository resp st = (r, st1) \<Longrightarrow>
     printed f st1 = printed f st \<and> deletesSent st1 = deletesSent st"
  using printed_createdV2 [of f env rc repository resp st]
    deletesSent_createdV2 [of env rc repository resp st] by simp

lemma TimeNow_eqD:
  "TimeNow env st = (t, st1) \<Longrightarrow> Sent st1 = Sent st \<and> Out st1 = Out st"
  using TimeNow_frame [of env st] by simp

lemma deletesSent_GetImageCreated:
  "deletesSent (snd (GetImageCreated env rc repository tag st)) = deletesSent st"
  by (auto simp: GetImageCreated_def NewRequest_def deletesSent_def SetBasicAuth_def Printf_def
      split: prod.splits sum.splits option.splits
      dest!: ClientDo_eqD createdV2_eqD [where f = deleteStarted] TimeNow_eqD)

lemma printed_GetImageCreated:
  assumes "f (PrintFallbackNow repository tag) = None"
  shows "printed f (snd (GetImageCreated env rc repository tag st)) = printed f st"
  using assms
  by (auto simp: GetImageCreated_def NewRequest_def printed_def Printf_def List.map_filter_def
      split: prod.splits sum.splits option.splits
      dest!: ClientDo_eqD createdV2_eqD [where f = f] TimeNow_eqD)

section \<open>The loop over the tags\<close>

lemma printed_resolveCreated:
  assumes "f (PrintFallbackNow repository tag) = None"
    and "\<And>err. f (PrintWarnCreated repository tag err) = None"
  shows "printed f (snd (resolveCreated env rc repository tag st)) = printed f st"
proof (cases "GetImageCreated env rc repository tag st")
  case (Pair r st1)
  then have st1: "printed f st1 = printed f st"
    using printed_GetImageCreated [of f repository tag env rc st] assms(1) by simp
  show ?thesis
  proof (cases r)
    case (Inl err)
    with Pair st1 show ?thesis
      by (simp add: resolveCreated_def printed_TimeNow printed_Printf assms(2))
  next
    case (Inr created)
    with Pair st1 show ?thesis
      by (simp add: resolveCreated_def)
  qed
qed

lemma deletesSent_resolveCreated:
  "deletesSent (snd (resolveCreated env rc repository tag st)) = deletesSent st"
proof (cases "GetImageCreated env rc repository tag st")
  case (Pair r st1)
  then have st1: "deletesSent st1 = deletesSent st"
    using deletesSent_GetImageCreated [of env rc repository tag st] by simp
  show ?thesis
  proof (cases r)
    case (Inl err)
    with Pair st1 show ?thesis
      by (simp add: resolveCreated_def deletesSent_TimeNow deletesSent_Printf)
  next
    case (Inr created)
    with Pair st1 show ?thesis
      by (simp add: resolveCreated_def)
  qed
qed

text \<open>One round of the loop over the tags: the tag is skipped, or one image is added.\<close>

lemma collectImages_Cons:
  obtains (skipped) err st1 where
      "GetManifestDigest env rc repository tag st = (Inl err, st1)"
      "collectImages env rc repository (tag # tags) images st =
         collectImages env rc repository tags images
           (Printf (PrintWarnDigest repository tag err) st1)"
  | (added) digest st1 created st2 where
      "GetManifestDigest env rc repository tag st = (Inr digest, st1)"
      "resolveCreated env rc repository tag st1 = (created, st2)"
      "collectImages env rc repository (tag # tags) images st =
         collectImages env rc repository tags
           (images @ [\<lparr>Repository = repository, Tag = tag, Digest = digest, Created = created\<rparr>])
           (Printf (PrintImageCreated repository tag created) st2)"
proof (cases "GetManifestDigest env rc repository tag st")
  case (Pair r st1)
  show ?thesis
  proof (cases r)
    case (Inl err)
    with Pair show ?thesis by (intro skipped [of err st1]) simp_all
  next
    case (Inr digest)
    obtain created st2 where "resolveCreated env rc repository tag st1 = (created, st2)"
      by (cases "resolveCreated env rc repository tag st1")
    with Pair Inr show ?thesis by (intro added [of digest st1 created st2]) simp_all
  qed
qed

lemma deletesSent_collectImages:
  "deletesSent (snd (collectImages env rc repository tags images st)) = deletesSent st"
proof (induction tags arbitrary: images st)
  case Nil
  then show ?case by simp
next
  case (Cons tag tags)
  show ?case
  proof (cases rule: collectImages_Cons [of env rc repository tag st tags images])
    case (skipped err st1)
    then show ?thesis
      using deletesSent_GetManifestDigest [of env rc repository tag st]
      by (simp add: Cons.IH deletesSent_Printf)
  next
    case (added digest st1 created st2)
    then show ?thesis
      using deletesSent_GetManifestDigest [of env rc repository tag st]
        deletesSent_resolveCreated [of env rc repository tag st1]
      by (simp add: Cons.IH deletesSent_Printf)
  qed
qed

lemma printed_collectImages:
  assumes "\<And>r t. f (PrintFallbackNow r t) = None"
    and "\<And>r t err. f (PrintWarnCreated r t err) = None"
    and "\<And>r t err. f (PrintWarnDigest r t err) = None"
    and "\<And>r t c. f (PrintImageCreated r t c) = None"
  shows "printed f (snd (collectImages env rc repository tags images st)) = printed f st"
proof (induction tags arbitrary: images st)
  case Nil
  then show ?case by simp
next
  case (Cons tag tags)
  show ?case
  proof (cases rule: collectImages_Cons [of env rc repository tag st tags images])
    case (skipped err st1)
    then show ?thesis
      using printed_GetManifestDigest [of f env rc repository tag st]
      by (simp add: Cons.IH printed_Printf assms)
  next
    case (added digest st1 created st2)
    then show ?thesis
      using printed_GetManifestDigest [of f env rc repository tag st]
        printed_resolveCreated [of f repository tag env rc st1]
      by (simp add: Cons.IH printed_Printf assms)
  qed
qed

lemma warned_resolveCreated:
  "printed digestWarned (snd (resolveCreated env rc repository tag st)) = printed digestWarned st"
  by (rule printed_resolveCreated) simp_all

lemma collectImages_warned:
  "\<exists>new skipped.
     fst (collectImages env rc repository tags images st) = images @ new \<and>
     printed digestWarned (snd (collectImages env rc repository tags images st)) =
       printed digestWarned st @ skipped \<and>
     mset (map Tag new) + mset skipped = mset tags \<and>
     (\<forall>img \<in> set new. Repository img = repository)"
proof (induction tags arbitrary: images st)
  case Nil
  then show ?case by simp
next
  case (Cons tag tags)
  show ?case
  proof (cases rule: collectImages_Cons [of env rc repository tag st tags images])
    case (skipped err st1)
    let ?st = "Printf (PrintWarnDigest repository tag err) st1"
    from Cons.IH [of images ?st] obtain new rest where ih:
      "fst (collectImages env rc repository tags images ?st) = images @ new"
      "printed digestWarned (snd (collectImages env rc repository tags images ?st)) =
         printed digestWarned ?st @ rest"
      "mset (map Tag new) + mset rest = mset tags"
      "\<forall>img \<in> set new. Repository img = repository"
      by blast
    have "printed digestWarned ?st = printed digestWarned st @ [tag]"
      using skipped(1) printed_GetManifestDigest [of digestWarned env rc repository tag st]
      by (simp add: printed_Printf)
    with ih skipped(2) show ?thesis
      by (intro exI [of _ new] exI [of _ "tag # rest"]) simp
  next
    case (added digest st1 created st2)
    let ?img = "\<lparr>Repository = repository, Tag = tag, Digest = digest, Created = created\<rparr>"
    let ?st = "Printf (PrintImageCreated repository tag created) st2"
    from Cons.IH [of "images @ [?img]" ?st] obtain new rest where ih:
      "fst (collectImages env rc repository tags (images @ [?img]) ?st) = (images @ [?img]) @ new"
      "printed digestWarned (snd (collectImages env rc repository tags (images @ [?img]) ?st)) =
         printed digestWarned ?st @ rest"
      "mset (map Tag new) + mset rest = mset tags"
      "\<forall>img \<in> set new. Repository img = repository"
      by blast
    have "printed digestWarned ?st = printed digestWarned st"
      using added(1,2) printed_GetManifestDigest [of digestWarned env rc repository tag st]
        warned_resolveCreated [of env rc repository tag st1]
      by (simp add: printed_Printf)
    with ih added(3) show ?thesis
      by (intro exI [of _ "?img # new"] exI [of _ rest]) simp
  qed
qed

lemma GetManifestDigest_Inr:
  assumes "GetManifestDigest env rc repository tag st = (Inr digest, st1)"
  shows "digest \<noteq> '''' \<and>
    (\<exists>w req resp. fst (Do env w req) = Inr resp \<and> DockerContentDigest resp = digest)"
proof (cases "NewRequest env HEAD (manifestURL rc repository tag)")
  case (Inl err)
  with assms show ?thesis by (simp add: GetManifestDigest_def makeRequest_def)
next
  case (Inr req)
  let ?req = "(SetBasicAuth rc req)\<lparr>Accept := manifest_v2\<rparr>"
  obtain r w where d: "Do env (World st) ?req = (r, w)"
    by (cases "Do env (World st) ?req")
  show ?thesis
  proof (cases r)
    case (Inl err)
    with assms Inr d show ?thesis
      by (simp add: GetManifestDigest_def makeRequest_def ClientDo_def)
  next
    case r: (Inr resp)
    with assms Inr d have "digest \<noteq> ''''" "DockerContentDigest resp = digest"
      by (auto simp: GetManifestDigest_def makeRequest_def ClientDo_def split: if_splits)
    moreover have "fst (Do env (World st) ?req) = Inr resp"
      using d r by simp
    ultimately show ?thesis by blast
  qed
qed

lemma GetManifestDigest_long:
  assumes "longDigests env" and "GetManifestDigest env rc repository tag st = (Inr digest, st1)"
  shows "12 \<le> length digest"
proof -
  from GetManifestDigest_Inr [OF assms(2)] obtain w req resp where
    d: "digest \<noteq> ''''" "fst (Do env w req) = Inr resp" "DockerContentDigest resp = digest"
    by blast
  from assms(1) have "case fst (Do env w req) of Inl err \<Rightarrow> True
      | Inr resp \<Rightarrow> DockerContentDigest resp = '''' \<or> 12 \<le> length (DockerContentDigest resp)"
    unfolding longDigests_def by blast
  with d show ?thesis by simp
qed

lemma collectImages_long:
  assumes "longDigests env"
  shows "(\<forall>img \<in> set images. 12 \<le> length (Digest img)) \<Longrightarrow>
    (\<forall>img \<in> set (fst (collectImages env rc repository tags images st)). 12 \<le> length (Digest img))"
proof (induction tags arbitrary: images st)
  case Nil
  then show ?case by simp
next
  case (Cons tag tags)
  show ?case
  proof (cases rule: collectImages_Cons [of env rc repository tag st tags images])
    case (skipped err st1)
    then show ?thesis using Cons.IH [OF Cons.prems] by simp
  next
    case (added digest st1 created st2)
    let ?img = "\<lparr>Repository = repository, Tag = tag, Digest = digest, Created = created\<rparr>"
    have "12 \<le> length digest"
      using GetManifestDigest_long [OF assms added(1)] .
    with Cons.prems have "\<forall>img \<in> set (images @ [?img]). 12 \<le> length (Digest img)"
      by simp
    from Cons.IH [OF this] added(3) show ?thesis by simp
  qed
qed

section \<open>The listing and the deletion loop\<close>

lemma printed_printSorted:
  assumes "\<And>n r t c s. f (PrintSortedLine n r t c s) = None"
  shows "printed f (printSorted keepLast i images st) = printed f st"
  by (induction images arbitrary: i st) (simp_all add: printed_Printf assms)

lemma deletesSent_printSorted: "deletesSent (printSorted keepLast i images st) = deletesSent st"
  by (induction images arbitrary: i st) (simp_all add: deletesSent_Printf)

lemma printed_append:
  "Out st1 = Out st @ evs \<Longrightarrow> printed f st1 = printed f st @ List.map_filter f evs"
  by (simp add: printed_def List.map_filter_def)

lemma map_filter_quiet: "(\<And>e. e \<in> set evs \<Longrightarrow> f e = None) \<Longrightarrow> List.map_filter f evs = []"
  by (induction evs) (simp_all add: List.map_filter_def)

lemma Out_DeleteManifest:
  "Out (snd (DeleteManifest env rc repository digest st)) = Out st \<or>
   Out (snd (DeleteManifest env rc repository digest st)) = Out st @ [PrintDeleteUnsupported]"
proof (cases "NewRequest env DELETE (manifestURL rc repository digest)")
  case (Inl err)
  then show ?thesis by (simp add: DeleteManifest_def)
next
  case (Inr req)
  let ?req = "(SetBasicAuth rc req)\<lparr>Accept := manifest_v2\<rparr>"
  obtain r st1 where d: "ClientDo env ?req st = (r, st1)"
    by (cases "ClientDo env ?req st")
  then have "Out st1 = Out st"
    using ClientDo_frame(1) [of env ?req st] by simp
  with Inr d show ?thesis
    by (cases r) (simp_all add: DeleteManifest_def Printf_def)
qed

text \<open>One round of the deletion loop, for a digest of at least 12 bytes.\<close>

lemma deleteImages_Cons:
  assumes "longDigest img"
  obtains evs st1 where
    "Out st1 = Out st @ evs"
    "List.map_filter deleteStarted evs = [imageKey img]"
    "List.map_filter deleteReported evs = [imageKey img]"
    "\<forall>e \<in> set evs. deletionEvent e"
    "deleteImages env rc (img # imgs) st = deleteImages env rc imgs st1"
proof -
  let ?start = "PrintDeleting (Repository img) (Tag img) (Created img) (take 12 (Digest img))"
  obtain r st1 where d: "DeleteManifest env rc (Repository img) (Digest img) (Printf ?start st) = (r, st1)"
    by (cases "DeleteManifest env rc (Repository img) (Digest img) (Printf ?start st)")
  let ?e = "case r of Some err \<Rightarrow> PrintDeleteError (Repository img) (Tag img) err
            | None \<Rightarrow> PrintDeleted (Repository img) (Tag img)"
  have step: "deleteImages env rc (img # imgs) st = deleteImages env rc imgs (Printf ?e st1)"
    using assms d by (simp add: longDigest_def sliceTo_def split: option.splits)
  from Out_DeleteManifest [of env rc "Repository img" "Digest img" "Printf ?start st"] d
  consider "Out st1 = Out st @ [?start]" | "Out st1 = Out st @ [?start, PrintDeleteUnsupported]"
    by (auto simp: Printf_def)
  then show ?thesis
  proof cases
    case 1
    show ?thesis
    proof (rule that [of "Printf ?e st1" "[?start, ?e]"])
      show "Out (Printf ?e st1) = Out st @ [?start, ?e]"
        using 1 by (simp add: Printf_def)
    qed (simp_all add: step List.map_filter_def imageKey_def del: deleteImages.simps split: option.splits)
  next
    case 2
    show ?thesis
    proof (rule that [of "Printf ?e st1" "[?start, PrintDeleteUnsupported, ?e]"])
      show "Out (Printf ?e st1) = Out st @ [?start, PrintDeleteUnsupported, ?e]"
        using 2 by (simp add: Printf_def)
    qed (simp_all add: step List.map_filter_def imageKey_def del: deleteImages.simps split: option.splits)
  qed
qed

lemma deleteImages_short:
  "\<not> longDigest img \<Longrightarrow>
     deleteImages env rc (img # imgs) st = (Inl (SliceBoundsHigh 12 (length (Digest img))), st)"
  by (simp add: longDigest_def sliceTo_def)

lemma deleteImages_run:
  "fst (deleteImages env rc imgs st) =
     (case dropWhile longDigest imgs of
        [] \<Rightarrow> Inr ()
      | img # rest \<Rightarrow> Inl (SliceBoundsHigh 12 (length (Digest img)))) \<and>
   printed deleteStarted (snd (deleteImages env rc imgs st)) =
     printed deleteStarted st @ map imageKey (takeWhile longDigest imgs) \<and>
   printed deleteReported (snd (deleteImages env rc imgs st)) =
     printed deleteReported st @ map imageKey (takeWhile longDigest imgs)"
proof (induction imgs arbitrary: st)
  case Nil
  then show ?case by simp
next
  case (Cons img imgs)
  show ?case
  proof (cases "longDigest img")
    case False
    then show ?thesis by (simp add: deleteImages_short del: deleteImages.simps)
  next
    case True
    then obtain evs st1 where
      "Out st1 = Out st @ evs"
      "List.map_filter deleteStarted evs = [imageKey img]"
      "List.map_filter deleteReported evs = [imageKey img]"
      "deleteImages env rc (img # imgs) st = deleteImages env rc imgs st1"
      by (rule deleteImages_Cons [of img st env rc imgs]) blast
    with True Cons.IH [of st1] show ?thesis
      by (simp add: printed_append del: deleteImages.simps)
  qed
qed

lemma printed_deleteImages:
  assumes "\<And>e. deletionEvent e \<Longrightarrow> f e = None"
  shows "printed f (snd (deleteImages env rc imgs st)) = printed f st"
proof (induction imgs arbitrary: st)
  case Nil
  then show ?case by simp
next
  case (Cons img imgs)
  show ?case
  proof (cases "longDigest img")
    case False
    then show ?thesis by (simp add: deleteImages_short del: deleteImages.simps)
  next
    case True
    then obtain evs st1 where st1:
      "Out st1 = Out st @ evs" "\<forall>e \<in> set evs. deletionEvent e"
      "deleteImages env rc (img # imgs) st = deleteImages env rc imgs st1"
      by (rule deleteImages_Cons [of img st env rc imgs]) blast
    then have "List.map_filter f evs = []"
      using assms by (intro map_filter_quiet) blast
    with st1 Cons.IH [of st1] show ?thesis
      by (simp add: printed_append del: deleteImages.simps)
  qed
qed

section \<open>One repository\<close>

lemma deletePhase_negative:
  "keepLast < 0 \<Longrightarrow>
     deletePhase env rc keepLast images st = (Inl (SliceBoundsLow keepLast (length images)), st)"
  by (simp add: deletePhase_def sliceFrom_def)

lemma deletePhase_few:
  "int (length images) \<le> keepLast \<Longrightarrow> deletePhase env rc keepLast images st = (Inr (), st)"
  by (simp add: deletePhase_def)

lemma deletePhase_run:
  assumes "0 \<le> keepLast"
  shows "fst (deletePhase env rc keepLast images st) =
     (case dropWhile longDigest (drop (nat keepLast) images) of
        [] \<Rightarrow> Inr ()
      | img # rest \<Rightarrow> Inl (SliceBoundsHigh 12 (length (Digest img)))) \<and>
   printed deleteStarted (snd (deletePhase env rc keepLast images st)) =
     printed deleteStarted st @ map imageKey (takeWhile longDigest (drop (nat keepLast) images)) \<and>
   printed deleteReported (snd (deletePhase env rc keepLast images st)) =
     printed deleteReported st @ map imageKey (takeWhile longDigest (drop (nat keepLast) images))"
proof (cases "int (length images) \<le> keepLast")
  case True
  then show ?thesis by (simp add: deletePhase_few)
next
  case False
  let ?st = "Printf (PrintFound (int (length images)) keepLast
      (int (length (drop (nat keepLast) images)))) st"
  have "deletePhase env rc keepLast images st = deleteImages env rc (drop (nat keepLast) images) ?st"
    using False assms by (simp add: deletePhase_def sliceFrom_def)
  then show ?thesis
    using deleteImages_run [of env rc "drop (nat keepLast) images" ?st]
    by (simp add: printed_Printf)
qed

lemma printed_deletePhase:
  assumes "\<And>e. deletionEvent e \<Longrightarrow> f e = None" and "\<And>n k d. f (PrintFound n k d) = None"
  shows "printed f (snd (deletePhase env rc keepLast images st)) = printed f st"
proof (cases "int (length images) > keepLast")
  case False
  then show ?thesis by (simp add: deletePhase_def)
next
  case True
  show ?thesis
  proof (cases "sliceFrom images keepLast")
    case (Inl p)
    with True show ?thesis by (simp add: deletePhase_def)
  next
    case (Inr toDelete)
    with True show ?thesis
      using printed_deleteImages [of f env rc toDelete] assms
      by (simp add: deletePhase_def printed_Printf)
  qed
qed

lemma CleanupRepository_error:
  "GetTags env rc repository (Printf (PrintProcessing repository) st) = (Inl err, st1) \<Longrightarrow>
     CleanupRepository env rc repository keepLast st = (Inr (Some err), st1)"
  by (simp add: CleanupRepository_def)

lemma CleanupRepository_few:
  "GetTags env rc repository (Printf (PrintProcessing repository) st) = (Inr tags, st1) \<Longrightarrow>
   int (length tags) \<le> keepLast \<Longrightarrow>
     CleanupRepository env rc repository keepLast st =
       (Inr None, Printf (PrintFewTags repository (int (length tags))) st1)"
  by (simp add: CleanupRepository_def)

lemma CleanupRepository_run:
  assumes "GetTags env rc repository (Printf (PrintProcessing repository) st) = (Inr tags, st1)"
    and "keepLast < int (length tags)"
    and "collectImages env rc repository tags [] st1 = (images, st2)"
  shows "fst (CleanupRepository env rc repository keepLast st) =
           (case fst (deletePhase env rc keepLast (sortImages env images)
                   (printSorted keepLast 0 (sortImages env images) (Printf PrintSortedHeader st2))) of
              Inl p \<Rightarrow> Inl p | Inr u \<Rightarrow> Inr None)"
    and "snd (CleanupRepository env rc repository keepLast st) =
           snd (deletePhase env rc keepLast (sortImages env images)
                 (printSorted keepLast 0 (sortImages env images) (Printf PrintSortedHeader st2)))"
  using assms by (simp_all add: CleanupRepository_def split: prod.splits sum.splits)

lemma length_collectImages:
  "length (fst (collectImages env rc repository tags [] st)) \<le> length tags"
proof -
  from collectImages_warned [of env rc repository tags "[]" st] obtain new skipped where
    "fst (collectImages env rc repository tags [] st) = [] @ new"
    "mset (map Tag new) + mset skipped = mset tags"
    by blast
  then have "length new + length skipped = length tags"
    by (metis length_map size_mset size_union)
  with \<open>fst (collectImages env rc repository tags [] st) = [] @ new\<close> show ?thesis by simp
qed

lemma processing_deletionEvent: "deletionEvent e \<Longrightarrow> processing e = None"
  by (cases e) simp_all

lemma processing_CleanupRepository:
  "printed processing (snd (CleanupRepository env rc repository keepLast st)) =
     printed processing st @ [repository]"
proof -
  let ?st = "Printf (PrintProcessing repository) st"
  obtain r st1 where g: "GetTags env rc repository ?st = (r, st1)"
    by (cases "GetTags env rc repository ?st")
  then have st1: "printed processing st1 = printed processing st @ [repository]"
    using printed_GetTags [of processing env rc repository ?st] by (simp add: printed_Printf)
  show ?thesis
  proof (cases r)
    case (Inl err)
    with g st1 show ?thesis by (simp add: CleanupRepository_error)
  next
    case (Inr tags)
    show ?thesis
    proof (cases "int (length tags) \<le> keepLast")
      case True
      with g Inr st1 show ?thesis by (simp add: CleanupRepository_few printed_Printf)
    next
      case False
      obtain images st2 where c: "collectImages env rc repository tags [] st1 = (images, st2)"
        by (cases "collectImages env rc repository tags [] st1")
      then have "printed processing st2 = printed processing st1"
        using printed_collectImages [of processing env rc repository tags "[]" st1] by simp
      moreover have "printed processing (snd (deletePhase env rc keepLast (sortImages env images)
          (printSorted keepLast 0 (sortImages env images) (Printf PrintSortedHeader st2)))) =
          printed processing st2"
        using printed_deletePhase [of processing env rc keepLast "sortImages env images"
            "printSorted keepLast 0 (sortImages env images) (Printf PrintSortedHeader st2)"]
          printed_printSorted [of processing keepLast 0 "sortImages env images"
            "Printf PrintSortedHeader st2"]
        by (simp add: processing_deletionEvent printed_Printf)
      ultimately show ?thesis
        using CleanupRepository_run(2) [of env rc repository st tags st1 keepLast images st2]
          g Inr False c st1 by simp
    qed
  qed
qed

section \<open>The run over the repositories\<close>

lemma all_long:
  "\<forall>img \<in> set imgs. longDigest img \<Longrightarrow>
     dropWhile longDigest imgs = [] \<and> takeWhile longDigest imgs = imgs"
  by (simp add: takeWhile_eq_all_conv)

lemma some_short:
  assumes "\<exists>img \<in> set imgs. \<not> longDigest img"
  shows "\<exists>img rest. dropWhile longDigest imgs = img # rest \<and> \<not> longDigest img"
proof -
  from assms have "dropWhile longDigest imgs \<noteq> []"
    by (simp add: dropWhile_eq_Nil_conv)
  then obtain img rest where d: "dropWhile longDigest imgs = img # rest"
    by (cases "dropWhile longDigest imgs") auto
  then have "\<not> longDigest img"
    by (metis hd_dropWhile list.sel(1) list.distinct(1))
  with d show ?thesis by blast
qed

lemma sorted_images_long:
  assumes "sortsByCreated env" and "longDigests env"
    and "collectImages env rc repository tags [] st1 = (images, st2)"
  shows "\<forall>img \<in> set (drop n (sortImages env images)). longDigest img"
proof -
  have "\<forall>img \<in> set (fst (collectImages env rc repository tags [] st1)). 12 \<le> length (Digest img)"
    by (rule collectImages_long [OF assms(2)]) simp
  with assms(3) have "\<forall>img \<in> set images. longDigest img"
    by (simp add: longDigest_def)
  then have "\<forall>img \<in> set (sortImages env images). longDigest img"
    using set_sortImages [OF assms(1)] by simp
  then show ?thesis
    by (meson in_set_dropD)
qed

lemma CleanupRepository_completes:
  assumes "sortsByCreated env" and "longDigests env" and "0 \<le> keepLast"
  shows "\<exists>r. fst (CleanupRepository env rc repository keepLast st) = Inr r"
proof -
  let ?st = "Printf (PrintProcessing repository) st"
  obtain r st1 where g: "GetTags env rc repository ?st = (r, st1)"
    by (cases "GetTags env rc repository ?st")
  show ?thesis
  proof (cases r)
    case (Inl err)
    with g show ?thesis by (simp add: CleanupRepository_error)
  next
    case (Inr tags)
    show ?thesis
    proof (cases "int (length tags) \<le> keepLast")
      case True
      with g Inr show ?thesis by (simp add: CleanupRepository_few)
    next
      case False
      obtain images st2 where c: "collectImages env rc repository tags [] st1 = (images, st2)"
        by (cases "collectImages env rc repository tags [] st1")
      let ?sorted = "sortImages env images"
      let ?st3 = "printSorted keepLast 0 ?sorted (Printf PrintSortedHeader st2)"
      have long: "\<forall>img \<in> set (drop (nat keepLast) ?sorted). longDigest img"
        by (rule sorted_images_long [OF assms(1,2) c])
      have "fst (deletePhase env rc keepLast ?sorted ?st3) = Inr ()"
        using deletePhase_run [OF assms(3), of env rc ?sorted ?st3]
        by (simp add: all_long [OF long])
      then show ?thesis
        using CleanupRepository_run(1) [of env rc repository st tags st1 keepLast images st2]
          g Inr False c by simp
    qed
  qed
qed

lemma cleanupAll_completes:
  assumes "sortsByCreated env" and "longDigests env" and "0 \<le> keepLast"
  shows "fst (cleanupAll env rc keepLast repos st) = Inr () \<and>
    printed processing (snd (cleanupAll env rc keepLast repos st)) = printed processing st @ repos"
proof (induction repos arbitrary: st)
  case Nil
  then show ?case by simp
next
  case (Cons repo repos)
  obtain r st1 where c: "CleanupRepository env rc repo keepLast st = (r, st1)"
    by (cases "CleanupRepository env rc repo keepLast st")
  then have p: "printed processing st1 = printed processing st @ [repo]"
    using processing_CleanupRepository [of env rc repo keepLast st] by simp
  from CleanupRepository_completes [OF assms, of rc repo st] c obtain res where r: "r = Inr res"
    by auto
  show ?case
  proof (cases res)
    case None
    with c r p Cons.IH [of st1] show ?thesis by simp
  next
    case (Some err)
    with c r p Cons.IH [of "Printf (PrintRepositoryError repo err) st1"] show ?thesis
      by (simp add: printed_Printf)
  qed
qed

lemma started_before_deleting:
  assumes "GetTags env rc repository (Printf (PrintProcessing repository) st) = (Inr tags, st1)"
    and "collectImages env rc repository tags [] st1 = (images, st2)"
  shows "printed deleteStarted (printSorted keepLast 0 imgs (Printf PrintSortedHeader st2)) =
    printed deleteStarted st"
proof -
  have "printed deleteStarted st1 = printed deleteStarted st"
    using printed_GetTags [of deleteStarted env rc repository "Printf (PrintProcessing repository) st"]
      assms(1) by (simp add: printed_Printf)
  moreover have "printed deleteStarted st2 = printed deleteStarted st1"
    using printed_collectImages [of deleteStarted env rc repository tags "[]" st1] assms(2) by simp
  ultimately show ?thesis
    using printed_printSorted [of deleteStarted keepLast 0 imgs "Printf PrintSortedHeader st2"]
    by (simp add: printed_Printf)
qed

lemma deletesSent_before_deleting:
  assumes "GetTags env rc repository (Printf (PrintProcessing repository) st) = (Inr tags, st1)"
    and "collectImages env rc repository tags [] st1 = (images, st2)"
  shows "deletesSent (printSorted keepLast 0 imgs (Printf PrintSortedHeader st2)) = deletesSent st"
proof -
  have "deletesSent st1 = deletesSent st"
    using deletesSent_GetTags [of env rc repository "Printf (PrintProcessing repository) st"]
      assms(1) by (simp add: deletesSent_Printf)
  moreover have "deletesSent st2 = deletesSent st1"
    using deletesSent_collectImages [of env rc repository tags "[]" st1] assms(2) by simp
  ultimately show ?thesis
    by (simp add: deletesSent_printSorted deletesSent_Printf)
qed

section \<open>The retention plan and the run that carries it out\<close>

lemma listedAs_deletionEvent: "deletionEvent e \<Longrightarrow> listedAs s e = None"
  by (cases e) simp_all

lemma announced_deletionEvent: "deletionEvent e \<Longrightarrow> announced e = None"
  by (cases e) simp_all

lemma listedAs_printSorted:
  "printed (listedAs s) (printSorted keepLast i images st) =
     printed (listedAs s) st @
       map imageKey (map snd (filter (\<lambda>(j, img). imageStatus keepLast j = s) (enumerate i images)))"
  by (induction images arbitrary: i st) (simp_all add: printed_Printf imageKey_def)

lemma DeleteStatus_enumerate:
  "0 \<le> keepLast \<Longrightarrow>
     map snd (filter (\<lambda>(i, img). imageStatus keepLast i = Delete) (enumerate n images)) =
       drop (nat keepLast - n) images"
proof (induction images arbitrary: n)
  case Nil
  then show ?case by simp
next
  case (Cons img images)
  show ?case
  proof (cases "int n < keepLast")
    case True
    then have "nat keepLast - n = Suc (nat keepLast - Suc n)" by linarith
    with True Cons.IH [OF Cons.prems, of "Suc n"] show ?thesis
      by (simp add: imageStatus_def)
  next
    case False
    then have "nat keepLast - n = 0" "nat keepLast - Suc n = 0" by linarith+
    with False Cons.IH [OF Cons.prems, of "Suc n"] show ?thesis
      by (simp add: imageStatus_def)
  qed
qed

lemma listing_printSorted:
  assumes "0 \<le> keepLast"
  shows "printed (listedAs Keep) (printSorted keepLast 0 images st) =
           printed (listedAs Keep) st @ map imageKey (KeepSet keepLast images)"
    and "printed (listedAs Delete) (printSorted keepLast 0 images st) =
           printed (listedAs Delete) st @ map imageKey (drop (nat keepLast) images)"
  using DeleteStatus_enumerate [OF assms, of 0 images]
  by (simp_all add: listedAs_printSorted KeepSet_def)

lemma deletePhase_many:
  assumes "0 \<le> keepLast" and "keepLast < int (length images)"
  shows "deletePhase env rc keepLast images st =
     deleteImages env rc (drop (nat keepLast) images)
       (Printf (PrintFound (int (length images)) keepLast (int (length images) - keepLast)) st)"
proof -
  have "int (length (drop (nat keepLast) images)) = int (length images) - keepLast"
    using assms by simp
  with assms show ?thesis
    by (simp add: deletePhase_def sliceFrom_def)
qed

lemma announced_deletePhase:
  assumes "0 \<le> keepLast" and "keepLast < int (length images)"
  shows "printed announced (snd (deletePhase env rc keepLast images st)) =
     printed announced st @ [(int (length images), keepLast, int (length images) - keepLast)]"
  using printed_deleteImages [of announced env rc "drop (nat keepLast) images"
      "Printf (PrintFound (int (length images)) keepLast (int (length images) - keepLast)) st"]
  by (simp add: deletePhase_many [OF assms] announced_deletionEvent printed_Printf)

lemma listing_before_sorting:
  assumes "GetTags env rc repository (Printf (PrintProcessing repository) st) = (Inr tags, st1)"
    and "collectImages env rc repository tags [] st1 = (images, st2)"
  shows "printed (listedAs s) (Printf PrintSortedHeader st2) = printed (listedAs s) st"
    and "printed announced (printSorted keepLast 0 imgs (Printf PrintSortedHeader st2)) =
           printed announced st"
proof -
  let ?st = "Printf (PrintProcessing repository) st"
  have "printed (listedAs s) st1 = printed (listedAs s) st"
    using printed_GetTags [of "listedAs s" env rc repository ?st] assms(1)
    by (simp add: printed_Printf)
  moreover have "printed (listedAs s) st2 = printed (listedAs s) st1"
    using printed_collectImages [of "listedAs s" env rc repository tags "[]" st1] assms(2) by simp
  ultimately show "printed (listedAs s) (Printf PrintSortedHeader st2) = printed (listedAs s) st"
    by (simp add: printed_Printf)
  have "printed announced st1 = printed announced st"
    using printed_GetTags [of announced env rc repository ?st] assms(1)
    by (simp add: printed_Printf)
  moreover have "printed announced st2 = printed announced st1"
    using printed_collectImages [of announced env rc repository tags "[]" st1] assms(2) by simp
  ultimately show "printed announced (printSorted keepLast 0 imgs (Printf PrintSortedHeader st2)) =
      printed announced st"
    using printed_printSorted [of announced keepLast 0 imgs "Printf PrintSortedHeader st2"]
    by (simp add: printed_Printf)
qed

text \<open>
  C2. When \<^verbatim>\<open>sort.Slice\<close> sorts, \<open>keepLast\<close> is positive and there are more than \<open>keepLast\<close>
  images, the Delete set has \<open>n - keepLast\<close> images, the Keep set has \<open>keepLast\<close>, together
  they are the images, and no deleted image was created after a kept one. This is the plan
  the code carries out: the listing of line 336 shows the Keep set as kept and the Delete
  set as to delete, and the deletion phase of lines 341-355 announces \<open>n\<close>, \<open>keepLast\<close> and
  \<open>n - keepLast\<close> and then runs the deletion loop over the Delete set. So does
  \<open>CleanupRepository\<close>, for the images it resolved: it starts the deletions of the Delete set,
  in order, up to the first digest shorter than 12 bytes.
\<close>

theorem retention_plan_sizes_and_order:
  assumes "sortsByCreated env" and "0 < keepLast" and "keepLast < int (length images)"
  shows "\<exists>del. DeleteSet keepLast (sortImages env images) = Inr del \<and>
           length del = length images - nat keepLast \<and>
           length (KeepSet keepLast (sortImages env images)) = nat keepLast \<and>
           mset (KeepSet keepLast (sortImages env images)) + mset del = mset images \<and>
           (\<forall>k \<in> set (KeepSet keepLast (sortImages env images)). \<forall>d \<in> set del.
              Created d \<le> Created k) \<and>
           printed (listedAs Keep) (printSorted keepLast 0 (sortImages env images) st) =
             printed (listedAs Keep) st @ map imageKey (KeepSet keepLast (sortImages env images)) \<and>
           printed (listedAs Delete) (printSorted keepLast 0 (sortImages env images) st) =
             printed (listedAs Delete) st @ map imageKey del \<and>
           deletePhase env rc keepLast (sortImages env images) st =
             deleteImages env rc del
               (Printf (PrintFound (int (length images)) keepLast (int (length images) - keepLast)) st) \<and>
           printed announced (snd (deletePhase env rc keepLast (sortImages env images) st)) =
             printed announced st @ [(int (length images), keepLast, int (length del))] \<and>
           printed deleteStarted (snd (deletePhase env rc keepLast (sortImages env images) st)) =
             printed deleteStarted st @ map imageKey (takeWhile longDigest del) \<and>
           (GetTags env rc repository (Printf (PrintProcessing repository) st) = (Inr tags, st1) \<and>
            collectImages env rc repository tags [] st1 = (images, st2) \<longrightarrow>
              printed (listedAs Keep) (snd (CleanupRepository env rc repository keepLast st)) =
                printed (listedAs Keep) st @ map imageKey (KeepSet keepLast (sortImages env images)) \<and>
              printed (listedAs Delete) (snd (CleanupRepository env rc repository keepLast st)) =
                printed (listedAs Delete) st @ map imageKey del \<and>
              printed announced (snd (CleanupRepository env rc repository keepLast st)) =
                printed announced st @ [(int (length images), keepLast, int (length del))] \<and>
              printed deleteStarted (snd (CleanupRepository env rc repository keepLast st)) =
                printed deleteStarted st @ map imageKey (takeWhile longDigest del))"
proof -
  let ?sorted = "sortImages env images"
  let ?del = "drop (nat keepLast) ?sorted"
  have len: "length ?sorted = length images"
    using assms(1) by (rule length_sortImages)
  have k: "0 \<le> keepLast" "keepLast < int (length ?sorted)"
    using assms(2,3) len by simp_all
  have del: "DeleteSet keepLast ?sorted = Inr ?del"
    using k by (rule DeleteSet_drop)
  have size: "length ?del = length images - nat keepLast" "int (length ?del) = int (length images) - keepLast"
    using assms(2,3) len by simp_all
  have keep: "length (KeepSet keepLast ?sorted) = nat keepLast"
    using assms(2,3) len by (simp add: KeepSet_take)
  have "mset (take (nat keepLast) ?sorted) + mset ?del = mset ?sorted"
    by (metis append_take_drop_id mset_append)
  then have part: "mset (KeepSet keepLast ?sorted) + mset ?del = mset images"
    using assms(1) by (simp add: KeepSet_take mset_sortImages)
  have order: "\<forall>k \<in> set (KeepSet keepLast ?sorted). \<forall>d \<in> set ?del. Created d \<le> Created k"
    using kept_not_older [OF sorted_sortImages [OF assms(1)]] by (simp add: KeepSet_take)
  have listing: "printed (listedAs Keep) (printSorted keepLast 0 ?sorted s) =
        printed (listedAs Keep) s @ map imageKey (KeepSet keepLast ?sorted)"
      "printed (listedAs Delete) (printSorted keepLast 0 ?sorted s) =
        printed (listedAs Delete) s @ map imageKey ?del" for s :: "'a state"
    using listing_printSorted [OF k(1), of ?sorted s] by simp_all
  have phase: "deletePhase env rc keepLast ?sorted s =
      deleteImages env rc ?del
        (Printf (PrintFound (int (length images)) keepLast (int (length images) - keepLast)) s)"
    for s :: "'a state"
    using deletePhase_many [OF k, of env rc s] len by simp
  have announce: "printed announced (snd (deletePhase env rc keepLast ?sorted s)) =
      printed announced s @ [(int (length images), keepLast, int (length ?del))]"
    for s :: "'a state"
    using announced_deletePhase [OF k, of env rc s] len size(2) by simp
  have started: "printed deleteStarted (snd (deletePhase env rc keepLast ?sorted s)) =
      printed deleteStarted s @ map imageKey (takeWhile longDigest ?del)" for s :: "'a state"
    using deletePhase_run [OF k(1), of env rc ?sorted s] by simp
  have run: "printed (listedAs Keep) (snd (CleanupRepository env rc repository keepLast st)) =
        printed (listedAs Keep) st @ map imageKey (KeepSet keepLast ?sorted) \<and>
      printed (listedAs Delete) (snd (CleanupRepository env rc repository keepLast st)) =
        printed (listedAs Delete) st @ map imageKey ?del \<and>
      printed announced (snd (CleanupRepository env rc repository keepLast st)) =
        printed announced st @ [(int (length images), keepLast, int (length ?del))] \<and>
      printed deleteStarted (snd (CleanupRepository env rc repository keepLast st)) =
        printed deleteStarted st @ map imageKey (takeWhile longDigest ?del)"
    if g: "GetTags env rc repository (Printf (PrintProcessing repository) st) = (Inr tags, st1)"
      and c: "collectImages env rc repository tags [] st1 = (images, st2)"
  proof -
    let ?st3 = "printSorted keepLast 0 ?sorted (Printf PrintSortedHeader st2)"
    have "length images \<le> length tags"
      using length_collectImages [of env rc repository tags st1] c by simp
    with assms(3) have more: "keepLast < int (length tags)" by simp
    have final: "snd (CleanupRepository env rc repository keepLast st) =
        snd (deletePhase env rc keepLast ?sorted ?st3)"
      by (rule CleanupRepository_run(2) [OF g more c])
    have quiet: "printed (listedAs s) (snd (deletePhase env rc keepLast ?sorted ?st3)) =
        printed (listedAs s) ?st3" for s
      using printed_deletePhase [of "listedAs s" env rc keepLast ?sorted ?st3]
      by (simp add: listedAs_deletionEvent)
    show ?thesis
      unfolding final
      using quiet [of Keep] quiet [of Delete] listing [of "Printf PrintSortedHeader st2"]
        listing_before_sorting(1) [OF g c] listing_before_sorting(2) [OF g c, of keepLast ?sorted]
        announce [of ?st3] started [of ?st3] started_before_deleting [OF g c, of keepLast ?sorted]
      by simp
  qed
  from del size keep part order listing [of st] phase [of st] announce [of st] started [of st] run
  show ?thesis by (intro exI [of _ ?del]) simp
qed

theorem retention_plan_sizes_and_order_witness:
  "let E = exampleEnv (routesA ''T3'' head2ok 202);
       got = GetTags E rc0 ''a'' (Printf (PrintProcessing ''a'') st0);
       resolved = collectImages E rc0 ''a'' [''1'', ''2'', ''3''] [] (snd got);
       run = snd (CleanupRepository E rc0 ''a'' 2 st0)
   in sortsByCreated E \<and> (0::int) < 2 \<and> 2 < int (length images3) \<and>
      fst got = Inr [''1'', ''2'', ''3''] \<and> fst resolved = images3 \<and>
      DeleteSet 2 (sortImages E images3) = Inr [exampleImage ''1'' ''sha256:00001'' 100] \<and>
      KeepSet 2 (sortImages E images3) =
        [exampleImage ''3'' ''sha256:00003'' 300, exampleImage ''2'' ''sha256:00002'' 200] \<and>
      printed (listedAs Keep) run = [(''a'', ''3''), (''a'', ''2'')] \<and>
      printed (listedAs Delete) run = [(''a'', ''1'')] \<and>
      printed announced run = [(3, 2, 1)] \<and>
      printed deleteStarted run = [(''a'', ''1'')]"
proof -
  let ?E = "exampleEnv (routesA ''T3'' head2ok 202)"
  let ?got = "GetTags ?E rc0 ''a'' (Printf (PrintProcessing ''a'') st0)"
  let ?resolved = "collectImages ?E rc0 ''a'' [''1'', ''2'', ''3''] [] (snd ?got)"
  let ?run = "snd (CleanupRepository ?E rc0 ''a'' 2 st0)"
  let ?img1 = "exampleImage ''1'' ''sha256:00001'' 100"
  let ?img2 = "exampleImage ''2'' ''sha256:00002'' 200"
  let ?img3 = "exampleImage ''3'' ''sha256:00003'' 300"
  have sorts: "sortsByCreated ?E"
    by (rule sortsByCreated_exampleEnv)
  have len: "2 < int (length images3)"
    by (simp add: images3_def)
  have tags: "fst ?got = Inr [''1'', ''2'', ''3'']"
    by (simp add: example_simps)
  then have g: "?got = (Inr [''1'', ''2'', ''3''], snd ?got)"
    by (metis prod.collapse)
  have images: "fst ?resolved = images3"
    by (simp add: example_simps exampleImage_def images3_def)
  then have c: "?resolved = (images3, snd ?resolved)"
    by (metis prod.collapse)
  have sorted: "sortImages ?E images3 = [?img3, ?img2, ?img1]"
    by (simp add: images3_def exampleEnv_def exampleImage_def run_simps)
  have plan: "DeleteSet 2 (sortImages ?E images3) = Inr [?img1]"
    "KeepSet 2 (sortImages ?E images3) = [?img3, ?img2]"
    unfolding sorted by (simp_all add: DeleteSet_def sliceFrom_def KeepSet_take)
  have empty: "printed f st0 = []" for f :: "event \<Rightarrow> 'b option"
    by (simp add: printed_def st0_def List.map_filter_def)
  have long: "longDigest ?img1"
    by (simp add: longDigest_def exampleImage_def)
  from retention_plan_sizes_and_order [where env = ?E and keepLast = 2 and images = images3
      and rc = rc0 and st = st0 and repository = "''a''" and tags = "[''1'', ''2'', ''3'']"
      and ?st1.0 = "snd ?got" and ?st2.0 = "snd ?resolved"] sorts len g c
  obtain del where del: "DeleteSet 2 (sortImages ?E images3) = Inr del"
    and run: "printed (listedAs Keep) ?run =
        printed (listedAs Keep) st0 @ map imageKey (KeepSet 2 (sortImages ?E images3))"
      "printed (listedAs Delete) ?run = printed (listedAs Delete) st0 @ map imageKey del"
      "printed announced ?run = printed announced st0 @ [(int (length images3), 2, int (length del))]"
      "printed deleteStarted ?run = printed deleteStarted st0 @ map imageKey (takeWhile longDigest del)"
    by auto
  from del plan(1) have "del = [?img1]" by simp
  with run plan(2) long empty have
    "printed (listedAs Keep) ?run = [(''a'', ''3''), (''a'', ''2'')]"
    "printed (listedAs Delete) ?run = [(''a'', ''1'')]"
    "printed announced ?run = [(3, 2, 1)]"
    "printed deleteStarted ?run = [(''a'', ''1'')]"
    by (simp_all add: imageKey_def exampleImage_def images3_def)
  with sorts len tags images plan show ?thesis
    unfolding Let_def by simp
qed

section \<open>Few images, and a keepLast that is not positive\<close>

text \<open>
  C3. A list of at most \<open>keepLast\<close> images has an empty Delete set. When the repository has
  at most \<open>keepLast\<close> tags, or at most \<open>keepLast\<close> images were resolved, \<open>CleanupRepository\<close>
  returns \<^verbatim>\<open>nil\<close>, sends no \<^verbatim>\<open>DELETE\<close> request and starts no deletion.
\<close>

theorem few_images_nothing_deleted:
  assumes "sortsByCreated env"
    and "GetTags env rc repository (Printf (PrintProcessing repository) st) = (Inr tags, st1)"
    and "collectImages env rc repository tags [] st1 = (images, st2)"
    and "int (length tags) \<le> keepLast \<or> int (length images) \<le> keepLast"
  shows "(\<forall>imgs. int (length imgs) \<le> keepLast \<longrightarrow> DeleteSet keepLast imgs = Inr []) \<and>
    DeleteSet keepLast (sortImages env images) = Inr [] \<and>
    fst (CleanupRepository env rc repository keepLast st) = Inr None \<and>
    deletesSent (snd (CleanupRepository env rc repository keepLast st)) = deletesSent st \<and>
    printed deleteStarted (snd (CleanupRepository env rc repository keepLast st)) =
      printed deleteStarted st"
proof -
  have few: "int (length images) \<le> keepLast"
    using assms(3,4) length_collectImages [of env rc repository tags st1] by auto
  then have sorted: "int (length (sortImages env images)) \<le> keepLast"
    by (simp add: length_sortImages [OF assms(1)])
  have plan: "\<forall>imgs. int (length imgs) \<le> keepLast \<longrightarrow> DeleteSet keepLast imgs = Inr []"
    by (simp add: DeleteSet_def)
  have run: "fst (CleanupRepository env rc repository keepLast st) = Inr None \<and>
    deletesSent (snd (CleanupRepository env rc repository keepLast st)) = deletesSent st \<and>
    printed deleteStarted (snd (CleanupRepository env rc repository keepLast st)) =
      printed deleteStarted st"
  proof (cases "int (length tags) \<le> keepLast")
    case True
    have "deletesSent st1 = deletesSent st" "printed deleteStarted st1 = printed deleteStarted st"
      using deletesSent_GetTags [of env rc repository "Printf (PrintProcessing repository) st"]
        printed_GetTags [of deleteStarted env rc repository "Printf (PrintProcessing repository) st"]
        assms(2) by (simp_all add: deletesSent_Printf printed_Printf)
    with True assms(2) show ?thesis
      by (simp add: CleanupRepository_few deletesSent_Printf printed_Printf)
  next
    case False
    then have more: "keepLast < int (length tags)" by simp
    let ?sorted = "sortImages env images"
    let ?st3 = "printSorted keepLast 0 ?sorted (Printf PrintSortedHeader st2)"
    have "deletePhase env rc keepLast ?sorted ?st3 = (Inr (), ?st3)"
      using sorted by (rule deletePhase_few)
    then show ?thesis
      using CleanupRepository_run [OF assms(2) more assms(3)]
        deletesSent_before_deleting [OF assms(2,3), of keepLast ?sorted]
        started_before_deleting [OF assms(2,3), of keepLast ?sorted]
      by simp
  qed
  from plan sorted run show ?thesis by simp
qed

theorem few_images_nothing_deleted_witness:
  "fst (GetTags (exampleEnv (routesA ''T2'' head2ok 202)) rc0 ''a''
          (Printf (PrintProcessing ''a'') st0)) = Inr [''1'', ''2''] \<and>
   int (length [''1'', ''2'']) \<le> 2 \<and>
   fst (CleanupRepository (exampleEnv (routesA ''T2'' head2ok 202)) rc0 ''a'' 2 st0) = Inr None \<and>
   deletesSent (snd (CleanupRepository (exampleEnv (routesA ''T2'' head2ok 202)) rc0 ''a'' 2 st0)) =
     deletesSent st0 \<and>
   printed deleteStarted
     (snd (CleanupRepository (exampleEnv (routesA ''T2'' head2ok 202)) rc0 ''a'' 2 st0)) =
     printed deleteStarted st0"
proof -
  let ?E = "exampleEnv (routesA ''T2'' head2ok 202)"
  let ?st = "Printf (PrintProcessing ''a'') st0"
  have tags: "fst (GetTags ?E rc0 ''a'' ?st) = Inr [''1'', ''2'']"
    by (simp add: example_simps)
  then have g: "GetTags ?E rc0 ''a'' ?st = (Inr [''1'', ''2''], snd (GetTags ?E rc0 ''a'' ?st))"
    by (metis prod.collapse)
  have c: "collectImages ?E rc0 ''a'' [''1'', ''2''] [] (snd (GetTags ?E rc0 ''a'' ?st)) =
      (fst (collectImages ?E rc0 ''a'' [''1'', ''2''] [] (snd (GetTags ?E rc0 ''a'' ?st))),
       snd (collectImages ?E rc0 ''a'' [''1'', ''2''] [] (snd (GetTags ?E rc0 ''a'' ?st))))"
    by (rule prod.collapse [symmetric])
  have few: "int (length [''1'', ''2'']) \<le> 2 \<or>
      int (length (fst (collectImages ?E rc0 ''a'' [''1'', ''2''] []
        (snd (GetTags ?E rc0 ''a'' ?st))))) \<le> 2"
    by simp
  from few_images_nothing_deleted [OF sortsByCreated_exampleEnv g c few] tags
  show ?thesis by simp
qed

text \<open>
  C4, the claim as stated fails: with \<open>keepLast = -1\<close> the slice expression of line 342
  panics, in the plan and in the run.
\<close>

theorem negative_keepLast_panics:
  "DeleteSet (- 1) images3 = Inl (SliceBoundsLow (- 1) 3) \<and>
   fst (CleanupRepository (exampleEnv (routesA ''T3'' head2ok 202)) rc0 ''a'' (- 1) st0) =
     Inl (SliceBoundsLow (- 1) 3)"
  by (simp add: DeleteSet_def images3_def example_simps run_simps)

text \<open>
  C4, as amended. With \<open>keepLast = 0\<close> the Delete set is the whole list and the Keep set is
  empty; when every digest has at least 12 bytes the deletion phase runs through and
  starts the deletion of every image, in order.
\<close>

theorem keepLast_zero_deletes_everything:
  "DeleteSet 0 images = Inr images \<and> KeepSet 0 images = [] \<and>
   ((\<forall>img \<in> set images. longDigest img) \<longrightarrow>
      fst (deletePhase env rc 0 images st) = Inr () \<and>
      printed deleteStarted (snd (deletePhase env rc 0 images st)) =
        printed deleteStarted st @ map imageKey images)"
proof -
  have "DeleteSet 0 images = Inr images"
    by (simp add: DeleteSet_def sliceFrom_def)
  moreover have "KeepSet 0 images = []"
    by (simp add: KeepSet_take)
  moreover have "fst (deletePhase env rc 0 images st) = Inr () \<and>
      printed deleteStarted (snd (deletePhase env rc 0 images st)) =
        printed deleteStarted st @ map imageKey images"
    if "\<forall>img \<in> set images. longDigest img"
    using deletePhase_run [of 0 env rc images st] by (simp add: all_long [OF that])
  ultimately show ?thesis by blast
qed

theorem keepLast_zero_deletes_everything_witness:
  "list_all longDigest images3 \<and>
   DeleteSet 0 images3 = Inr images3 \<and> KeepSet 0 images3 = [] \<and>
   fst (deletePhase (exampleEnv (routesA ''T3'' head2ok 202)) rc0 0 images3 st0) = Inr () \<and>
   printed deleteStarted
     (snd (deletePhase (exampleEnv (routesA ''T3'' head2ok 202)) rc0 0 images3 st0)) =
     printed deleteStarted st0 @ map imageKey images3"
proof -
  have long: "\<forall>img \<in> set images3. longDigest img"
    by (simp add: images3_def exampleImage_def longDigest_def)
  from keepLast_zero_deletes_everything [of images3 "exampleEnv (routesA ''T3'' head2ok 202)" rc0 st0]
    long
  show ?thesis by (simp add: list_all_iff)
qed

section \<open>Failed lookups, failed deletions and short digests\<close>

lemma CleanupRepository_never_error:
  assumes "GetTags env rc repository (Printf (PrintProcessing repository) st) = (Inr tags, st1)"
  shows "fst (CleanupRepository env rc repository keepLast st) \<noteq> Inr (Some err)"
proof (cases "int (length tags) \<le> keepLast")
  case True
  with assms show ?thesis by (simp add: CleanupRepository_few)
next
  case False
  obtain images st2 where c: "collectImages env rc repository tags [] st1 = (images, st2)"
    by (cases "collectImages env rc repository tags [] st1")
  from False CleanupRepository_run(1) [OF assms _ c, of keepLast] show ?thesis
    by (simp split: sum.splits)
qed

lemma CleanupRepository_nil:
  assumes "sortsByCreated env" and "longDigests env" and "0 \<le> keepLast"
    and "GetTags env rc repository (Printf (PrintProcessing repository) st) = (Inr tags, st1)"
  shows "fst (CleanupRepository env rc repository keepLast st) = Inr None"
proof -
  from CleanupRepository_completes [OF assms(1-3), of rc repository st]
  obtain r where r: "fst (CleanupRepository env rc repository keepLast st) = Inr r" by blast
  with CleanupRepository_never_error [OF assms(4), of keepLast] show ?thesis
    by (cases r) auto
qed




text \<open>
  C7. When every digest to delete has at least 12 bytes, the deletion loop runs to its end
  whatever \<open>DeleteManifest\<close> returns: it starts the deletion of every image and reports
  each; an error of \<open>DeleteManifest\<close> is printed (line 350) and the loop goes on with the
  next image. When moreover \<^verbatim>\<open>sort.Slice\<close> sorts, the registry sends no short digest and
  \<open>keepLast >= 0\<close>, \<open>CleanupRepository\<close> returns \<^verbatim>\<open>nil\<close> once the tags are listed, and the run
  enters every repository.
\<close>

theorem deletion_failure_does_not_abort:
  "((\<forall>img \<in> set imgs. longDigest img) \<longrightarrow>
      fst (deleteImages env rc imgs st) = Inr () \<and>
      printed deleteStarted (snd (deleteImages env rc imgs st)) =
        printed deleteStarted st @ map imageKey imgs \<and>
      printed deleteReported (snd (deleteImages env rc imgs st)) =
        printed deleteReported st @ map imageKey imgs) \<and>
   (longDigest img \<and>
    DeleteManifest env rc (Repository img) (Digest img)
      (Printf (PrintDeleting (Repository img) (Tag img) (Created img) (take 12 (Digest img))) st) =
      (Some err, st1) \<longrightarrow>
      deleteImages env rc (img # imgs) st =
        deleteImages env rc imgs (Printf (PrintDeleteError (Repository img) (Tag img) err) st1)) \<and>
   (sortsByCreated env \<and> longDigests env \<and> 0 \<le> keepLast \<longrightarrow>
      (GetTags env rc repository (Printf (PrintProcessing repository) st) = (Inr tags, st2) \<longrightarrow>
         fst (CleanupRepository env rc repository keepLast st) = Inr None) \<and>
      fst (cleanupAll env rc keepLast repos st) = Inr () \<and>
      printed processing (snd (cleanupAll env rc keepLast repos st)) =
        printed processing st @ repos)"
proof -
  have loop: "fst (deleteImages env rc imgs st) = Inr () \<and>
      printed deleteStarted (snd (deleteImages env rc imgs st)) =
        printed deleteStarted st @ map imageKey imgs \<and>
      printed deleteReported (snd (deleteImages env rc imgs st)) =
        printed deleteReported st @ map imageKey imgs"
    if "\<forall>img \<in> set imgs. longDigest img"
    using deleteImages_run [of env rc imgs st] by (simp add: all_long [OF that])
  have round: "deleteImages env rc (img # imgs) st =
        deleteImages env rc imgs (Printf (PrintDeleteError (Repository img) (Tag img) err) st1)"
    if "longDigest img" "DeleteManifest env rc (Repository img) (Digest img)
      (Printf (PrintDeleting (Repository img) (Tag img) (Created img) (take 12 (Digest img))) st) =
      (Some err, st1)"
    using that by (simp add: longDigest_def sliceTo_def)
  have run: "(GetTags env rc repository (Printf (PrintProcessing repository) st) = (Inr tags, st2) \<longrightarrow>
         fst (CleanupRepository env rc repository keepLast st) = Inr None) \<and>
      fst (cleanupAll env rc keepLast repos st) = Inr () \<and>
      printed processing (snd (cleanupAll env rc keepLast repos st)) =
        printed processing st @ repos"
    if "sortsByCreated env" "longDigests env" "0 \<le> keepLast"
    using cleanupAll_completes [OF that, of rc repos st] CleanupRepository_nil [OF that]
    by blast
  from loop round run show ?thesis by blast
qed

theorem deletion_failure_does_not_abort_witness:
  "let E = exampleEnv (routesA ''T3'' head2ok 404);
       img = exampleImage ''1'' ''sha256:00001'' 100;
       started = Printf (PrintDeleting ''a'' ''1'' 100 ''sha256:00001'') st0;
       failed = DeleteManifest E rc0 ''a'' ''sha256:00001'' started
   in list_all longDigest [img] \<and>
      fst failed = Some (Errorf ErrManifestNotFound [ArgStr ''gone'']) \<and>
      fst (deleteImages E rc0 [img] st0) = Inr () \<and>
      printed deleteStarted (snd (deleteImages E rc0 [img] st0)) = [(''a'', ''1'')] \<and>
      printed deleteReported (snd (deleteImages E rc0 [img] st0)) = [(''a'', ''1'')] \<and>
      deleteImages E rc0 [img, img] st0 =
        deleteImages E rc0 [img]
          (Printf (PrintDeleteError ''a'' ''1'' (Errorf ErrManifestNotFound [ArgStr ''gone'']))
             (snd failed)) \<and>
      sortsByCreated E \<and> longDigests E \<and> (0::int) \<le> 2 \<and>
      fst (CleanupRepository E rc0 ''a'' 2 st0) = Inr None \<and>
      fst (cleanupAll E rc0 2 [''a'', ''b''] st0) = Inr () \<and>
      printed processing (snd (cleanupAll E rc0 2 [''a'', ''b''] st0)) = [''a'', ''b''] \<and>
      printed deleteReported (snd (cleanupAll E rc0 2 [''a'', ''b''] st0)) = [(''a'', ''1'')]"
proof -
  let ?E = "exampleEnv (routesA ''T3'' head2ok 404)"
  let ?img = "exampleImage ''1'' ''sha256:00001'' 100"
  let ?started = "Printf (PrintDeleting ''a'' ''1'' 100 ''sha256:00001'') st0"
  let ?failed = "DeleteManifest ?E rc0 ''a'' ''sha256:00001'' ?started"
  let ?err = "Errorf ErrManifestNotFound [ArgStr ''gone'']"
  have long: "\<forall>i \<in> set [?img]. longDigest i" "longDigest ?img"
    by (simp_all add: exampleImage_def longDigest_def)
  have failed: "fst ?failed = Some ?err"
    by (simp add: example_simps)
  then have d: "DeleteManifest ?E rc0 (Repository ?img) (Digest ?img)
      (Printf (PrintDeleting (Repository ?img) (Tag ?img) (Created ?img) (take 12 (Digest ?img))) st0) =
      (Some ?err, snd ?failed)"
    by (simp add: exampleImage_def prod_eq_iff)
  have env: "sortsByCreated ?E" "longDigests ?E"
    by (rule sortsByCreated_exampleEnv, rule longDigests_routesA)
  have tags: "GetTags ?E rc0 ''a'' (Printf (PrintProcessing ''a'') st0) =
      (Inr [''1'', ''2'', ''3''], snd (GetTags ?E rc0 ''a'' (Printf (PrintProcessing ''a'') st0)))"
    by (simp add: example_simps)
  have reported: "printed deleteReported (snd (cleanupAll ?E rc0 2 [''a'', ''b''] st0)) = [(''a'', ''1'')]"
    by (simp add: example_simps run_simps printed_def List.map_filter_def)
  from deletion_failure_does_not_abort [of "[?img]" ?E rc0 st0 ?img ?err "snd ?failed" 2 "''a''"
      "[''1'', ''2'', ''3'']" "snd (GetTags ?E rc0 ''a'' (Printf (PrintProcessing ''a'') st0))"
      "[''a'', ''b'']"]
    long d env tags
  have "fst (deleteImages ?E rc0 [?img] st0) = Inr () \<and>
      printed deleteStarted (snd (deleteImages ?E rc0 [?img] st0)) =
        printed deleteStarted st0 @ map imageKey [?img] \<and>
      printed deleteReported (snd (deleteImages ?E rc0 [?img] st0)) =
        printed deleteReported st0 @ map imageKey [?img] \<and>
      deleteImages ?E rc0 [?img, ?img] st0 =
        deleteImages ?E rc0 [?img]
          (Printf (PrintDeleteError (Repository ?img) (Tag ?img) ?err) (snd ?failed)) \<and>
      fst (CleanupRepository ?E rc0 ''a'' 2 st0) = Inr None \<and>
      fst (cleanupAll ?E rc0 2 [''a'', ''b''] st0) = Inr () \<and>
      printed processing (snd (cleanupAll ?E rc0 2 [''a'', ''b''] st0)) =
        printed processing st0 @ [''a'', ''b'']"
    by (simp del: deleteImages.simps cleanupAll.simps)
  moreover have "printed deleteStarted st0 = []" "printed deleteReported st0 = []"
    "printed processing st0 = []" "map imageKey [?img] = [(''a'', ''1'')]"
    "Repository ?img = ''a''" "Tag ?img = ''1''"
    by (simp_all add: printed_def st0_def List.map_filter_def imageKey_def exampleImage_def)
  ultimately show ?thesis
    unfolding Let_def using long failed env reported
    by (simp del: deleteImages.simps cleanupAll.simps)
qed

text \<open>
  C9. A digest shorter than 12 bytes makes the deletion loop panic at that image, before
  anything is printed or sent for it; the deletions started are those of the images before
  the first such image, and \<open>CleanupRepository\<close> panics when its Delete set holds one.
  \<open>GetManifestDigest\<close> only ensures that the digest is not empty: the example registry
  answers with a digest of 9 bytes.
\<close>

theorem short_digest_panics:
  "(\<not> longDigest img \<longrightarrow>
      deleteImages env rc (img # imgs) st = (Inl (SliceBoundsHigh 12 (length (Digest img))), st)) \<and>
   ((\<exists>img \<in> set imgs. \<not> longDigest img) \<longrightarrow>
      (\<exists>n < 12. fst (deleteImages env rc imgs st) = Inl (SliceBoundsHigh 12 n)) \<and>
      printed deleteStarted (snd (deleteImages env rc imgs st)) =
        printed deleteStarted st @ map imageKey (takeWhile longDigest imgs)) \<and>
   (GetTags env rc repository (Printf (PrintProcessing repository) st) = (Inr tags, st1) \<and>
    keepLast < int (length tags) \<and>
    collectImages env rc repository tags [] st1 = (images, st2) \<and>
    DeleteSet keepLast (sortImages env images) = Inr del \<and>
    (\<exists>img \<in> set del. \<not> longDigest img) \<longrightarrow>
      (\<exists>n < 12. fst (CleanupRepository env rc repository keepLast st) = Inl (SliceBoundsHigh 12 n)) \<and>
      printed deleteStarted (snd (CleanupRepository env rc repository keepLast st)) =
        printed deleteStarted st @ map imageKey (takeWhile longDigest del)) \<and>
   (GetManifestDigest env rc repository tag st = (Inr digest, st') \<longrightarrow> digest \<noteq> '''') \<and>
   fst (GetManifestDigest (exampleEnv (routesA ''T3'' (answer 200 ''sha256:ab'' '''') 202))
          rc0 ''a'' ''2'' st0) = Inr ''sha256:ab''"
proof -
  have head: "deleteImages env rc (img # imgs) st =
      (Inl (SliceBoundsHigh 12 (length (Digest img))), st)" if "\<not> longDigest img"
    using that by (rule deleteImages_short)
  have loop: "(\<exists>n < 12. fst (deleteImages env rc imgs st) = Inl (SliceBoundsHigh 12 n)) \<and>
      printed deleteStarted (snd (deleteImages env rc imgs st)) =
        printed deleteStarted st @ map imageKey (takeWhile longDigest imgs)"
    if "\<exists>img \<in> set imgs. \<not> longDigest img" for imgs and st :: "'a state"
  proof -
    from some_short [OF that] obtain img rest where
      "dropWhile longDigest imgs = img # rest" "\<not> longDigest img" by blast
    then show ?thesis
      using deleteImages_run [of env rc imgs st] by (auto simp: longDigest_def)
  qed
  have run: "(\<exists>n < 12. fst (CleanupRepository env rc repository keepLast st) = Inl (SliceBoundsHigh 12 n)) \<and>
      printed deleteStarted (snd (CleanupRepository env rc repository keepLast st)) =
        printed deleteStarted st @ map imageKey (takeWhile longDigest del)"
    if g: "GetTags env rc repository (Printf (PrintProcessing repository) st) = (Inr tags, st1)"
      and more: "keepLast < int (length tags)"
      and c: "collectImages env rc repository tags [] st1 = (images, st2)"
      and d: "DeleteSet keepLast (sortImages env images) = Inr del"
      and short: "\<exists>img \<in> set del. \<not> longDigest img"
  proof -
    let ?sorted = "sortImages env images"
    let ?st3 = "printSorted keepLast 0 ?sorted (Printf PrintSortedHeader st2)"
    let ?st4 = "Printf (PrintFound (int (length ?sorted)) keepLast (int (length del))) ?st3"
    from short have "del \<noteq> []" by auto
    with d have k: "keepLast < int (length ?sorted)" "0 \<le> keepLast" "del = drop (nat keepLast) ?sorted"
      by (auto simp: DeleteSet_def sliceFrom_def split: if_splits)
    then have phase: "deletePhase env rc keepLast ?sorted ?st3 = deleteImages env rc del ?st4"
      by (simp add: deletePhase_def sliceFrom_def)
    from loop [OF short, of ?st4] obtain n where n:
      "n < 12" "fst (deleteImages env rc del ?st4) = Inl (SliceBoundsHigh 12 n)"
      "printed deleteStarted (snd (deleteImages env rc del ?st4)) =
         printed deleteStarted ?st4 @ map imageKey (takeWhile longDigest del)"
      by blast
    have "printed deleteStarted ?st4 = printed deleteStarted st"
      using started_before_deleting [OF g c, of keepLast ?sorted] by (simp add: printed_Printf)
    with n phase CleanupRepository_run [OF g more c] show ?thesis
      by auto
  qed
  have nonempty: "digest \<noteq> ''''"
    if "GetManifestDigest env rc repository tag st = (Inr digest, st')"
    using GetManifestDigest_Inr [OF that] by simp
  have example: "fst (GetManifestDigest (exampleEnv (routesA ''T3'' (answer 200 ''sha256:ab'' '''') 202))
          rc0 ''a'' ''2'' st0) = Inr ''sha256:ab''"
    by (simp add: example_simps)
  from head loop [of imgs st] run nonempty example show ?thesis by blast
qed

theorem short_digest_panics_witness:
  "let E = exampleEnv (routesA ''T3'' (answer 200 ''sha256:ab'' '''') 202);
       listed = GetTags E rc0 ''a'' (Printf (PrintProcessing ''a'') st0);
       resolved = collectImages E rc0 ''a'' [''1'', ''2'', ''3''] [] (snd listed);
       short = exampleImage ''2'' ''sha256:ab'' 200
   in fst listed = Inr [''1'', ''2'', ''3''] \<and>
      DeleteSet 1 (sortImages E (fst resolved)) =
        Inr [short, exampleImage ''1'' ''sha256:00001'' 100] \<and>
      \<not> longDigest short \<and>
      deleteImages E rc0 [short] st0 = (Inl (SliceBoundsHigh 12 9), st0) \<and>
      fst (CleanupRepository E rc0 ''a'' 1 st0) = Inl (SliceBoundsHigh 12 9) \<and>
      printed deleteStarted (snd (CleanupRepository E rc0 ''a'' 1 st0)) = [] \<and>
      deletesSent (snd (CleanupRepository E rc0 ''a'' 1 st0)) = []"
proof -
  let ?E = "exampleEnv (routesA ''T3'' (answer 200 ''sha256:ab'' '''') 202)"
  let ?listed = "GetTags ?E rc0 ''a'' (Printf (PrintProcessing ''a'') st0)"
  let ?resolved = "collectImages ?E rc0 ''a'' [''1'', ''2'', ''3''] [] (snd ?listed)"
  let ?short = "exampleImage ''2'' ''sha256:ab'' 200"
  let ?del = "[?short, exampleImage ''1'' ''sha256:00001'' 100]"
  have tags: "fst ?listed = Inr [''1'', ''2'', ''3'']"
    by (simp add: example_simps)
  have images: "fst ?resolved =
      [exampleImage ''1'' ''sha256:00001'' 100, ?short, exampleImage ''3'' ''sha256:00003'' 300]"
    by (simp add: example_simps exampleImage_def)
  have plan: "DeleteSet 1 (sortImages ?E (fst ?resolved)) = Inr ?del"
    unfolding images
    by (simp add: DeleteSet_def exampleEnv_def exampleImage_def run_simps)
  have short: "\<not> longDigest ?short"
    by (simp add: longDigest_def exampleImage_def)
  have sent: "deletesSent (snd (CleanupRepository ?E rc0 ''a'' 1 st0)) = []"
    by (simp add: example_simps run_simps deletesSent_def)
  from short_digest_panics [where img = ?short and env = ?E and rc = rc0 and imgs = "[]"
      and st = st0 and repository = "''a''" and tags = "[''1'', ''2'', ''3'']"
      and ?st1.0 = "snd ?listed" and keepLast = 1 and images = "fst ?resolved"
      and ?st2.0 = "snd ?resolved" and del = ?del]
    tags plan short
  have "deleteImages ?E rc0 [?short] st0 = (Inl (SliceBoundsHigh 12 (length (Digest ?short))), st0) \<and>
    (\<exists>n<12. fst (CleanupRepository ?E rc0 ''a'' 1 st0) = Inl (SliceBoundsHigh 12 n)) \<and>
    printed deleteStarted (snd (CleanupRepository ?E rc0 ''a'' 1 st0)) =
      printed deleteStarted st0 @ map imageKey (takeWhile longDigest ?del)"
    by (simp add: prod_eq_iff del: deleteImages.simps)
  moreover have "fst (CleanupRepository ?E rc0 ''a'' 1 st0) = Inl (SliceBoundsHigh 12 9)"
    by (simp add: example_simps run_simps)
  moreover have "printed deleteStarted st0 = []" "length (Digest ?short) = 9"
    by (simp_all add: printed_def st0_def List.map_filter_def exampleImage_def)
  ultimately show ?thesis
    unfolding Let_def using tags plan short sent
    by (simp del: deleteImages.simps)
qed

section \<open>The creation time of a tag\<close>

lemma NewRequest_accepted:
  "NewRequestError env m url = None \<Longrightarrow>
     NewRequest env m url = Inr \<lparr>Method = m, URL = url, BasicAuth = None, Accept = ''''\<rparr>"
  by (simp add: NewRequest_def)

lemma ClientDo_answered:
  assumes "answered env req"
  obtains resp st1 where "ClientDo env req st = (Inr resp, st1)"
proof -
  from assms obtain resp w' where "Do env (World st) req = (Inr resp, w')"
    unfolding answered_def by blast
  then have "ClientDo env req st = (Inr resp, st\<lparr>World := w', Sent := Sent st @ [req]\<rparr>)"
    by (simp add: ClientDo_def)
  then show ?thesis by (rule that)
qed

text \<open>\<open>GetImageCreated\<close>, once the URL is accepted, in terms of its two requests.\<close>

lemma GetImageCreated_accepted:
  assumes "NewRequestError env GET (manifestURL rc repository tag) = None"
  shows "GetImageCreated env rc repository tag st =
     (case ClientDo env (manifestRequest rc repository tag manifest_v1) st of
        (Inl err, st1) \<Rightarrow>
          (Inl (Errorf ErrGetManifest [ArgStr repository, ArgStr tag, ArgErr err]), st1)
      | (Inr resp, st1) \<Rightarrow>
          (case createdV1 env resp of
             Some created \<Rightarrow> (Inr created, st1)
           | None \<Rightarrow>
               (case ClientDo env (manifestRequest rc repository tag manifest_v2) st1 of
                  (Inl err, st2) \<Rightarrow>
                    (Inl (Errorf ErrGetManifestV2 [ArgStr repository, ArgStr tag, ArgErr err]), st2)
                | (Inr resp2, st2) \<Rightarrow>
                    (case createdV2 env rc repository resp2 st2 of
                       (Some created, st3) \<Rightarrow> (Inr created, st3)
                     | (None, st3) \<Rightarrow>
                         (case TimeNow env (Printf (PrintFallbackNow repository tag) st3) of
                            (now, st4) \<Rightarrow> (Inr now, st4))))))"
  unfolding GetImageCreated_def NewRequest_accepted [OF assms] manifestRequest_def
  by (simp split: prod.split sum.split option.split)

lemma GetImageCreated_v1:
  assumes "NewRequestError env GET (manifestURL rc repository tag) = None"
    and "ClientDo env (manifestRequest rc repository tag manifest_v1) st = (Inr resp, st1)"
    and "createdV1 env resp = Some created"
  shows "GetImageCreated env rc repository tag st = (Inr created, st1)"
  by (simp add: GetImageCreated_accepted [OF assms(1)] assms(2,3))

lemma GetImageCreated_v2:
  assumes "NewRequestError env GET (manifestURL rc repository tag) = None"
    and "ClientDo env (manifestRequest rc repository tag manifest_v1) st = (Inr resp, st1)"
    and "createdV1 env resp = None"
    and "ClientDo env (manifestRequest rc repository tag manifest_v2) st1 = (Inr resp2, st2)"
    and "createdV2 env rc repository resp2 st2 = (Some created, st3)"
  shows "GetImageCreated env rc repository tag st = (Inr created, st3)"
  by (simp add: GetImageCreated_accepted [OF assms(1)] assms(2-5))

lemma GetImageCreated_fallback:
  assumes "NewRequestError env GET (manifestURL rc repository tag) = None"
    and "ClientDo env (manifestRequest rc repository tag manifest_v1) st = (Inr resp, st1)"
    and "createdV1 env resp = None"
    and "ClientDo env (manifestRequest rc repository tag manifest_v2) st1 = (Inr resp2, st2)"
    and "createdV2 env rc repository resp2 st2 = (None, st3)"
  shows "GetImageCreated env rc repository tag st =
    (Inr (fst (TimeNow env (Printf (PrintFallbackNow repository tag) st3))),
     snd (TimeNow env (Printf (PrintFallbackNow repository tag) st3)))"
  by (simp add: GetImageCreated_accepted [OF assms(1)] assms(2-5) split: prod.splits)

lemma GetImageCreated_answered:
  assumes "NewRequestError env GET (manifestURL rc repository tag) = None"
    and "answered env (manifestRequest rc repository tag manifest_v1)"
    and "answered env (manifestRequest rc repository tag manifest_v2)"
  shows "\<exists>created st'. GetImageCreated env rc repository tag st = (Inr created, st')"
proof -
  obtain resp st1 where v1: "ClientDo env (manifestRequest rc repository tag manifest_v1) st = (Inr resp, st1)"
    using assms(2) by (rule ClientDo_answered)
  show ?thesis
  proof (cases "createdV1 env resp")
    case (Some created)
    from GetImageCreated_v1 [OF assms(1) v1 Some] show ?thesis by blast
  next
    case None
    obtain resp2 st2 where v2:
      "ClientDo env (manifestRequest rc repository tag manifest_v2) st1 = (Inr resp2, st2)"
      using assms(3) by (rule ClientDo_answered)
    obtain r st3 where c: "createdV2 env rc repository resp2 st2 = (r, st3)"
      by (cases "createdV2 env rc repository resp2 st2")
    show ?thesis
    proof (cases r)
      case None': None
      from GetImageCreated_fallback [OF assms(1) v1 None v2 c [unfolded None']] show ?thesis by blast
    next
      case (Some created)
      from GetImageCreated_v2 [OF assms(1) v1 None v2 c [unfolded Some]] show ?thesis by blast
    qed
  qed
qed

text \<open>
  C1, the claim as stated fails: when the registry cannot be reached, \<open>GetImageCreated\<close>
  returns the error of line 179.
\<close>

theorem GetImageCreated_returns_error:
  "fst (GetImageCreated (exampleEnv []) rc0 ''a'' ''1'' st0) =
     Inl (Errorf ErrGetManifest [ArgStr ''a'', ArgStr ''1'', ArgErr (LibError ''connection refused'')])"
  by (simp add: example_simps)

text \<open>
  C1, as amended. When \<^verbatim>\<open>http.NewRequest\<close> accepts the manifest URL and the registry answers
  the two manifest requests (with any status and body), \<open>GetImageCreated\<close> returns a
  timestamp; when both are answered and neither strategy yields a creation time, it is the
  current time, after the warning of line 229. When \<open>GetImageCreated\<close> does return an error,
  \<open>CleanupRepository\<close> takes the current time instead (lines 310-313).
\<close>

theorem GetImageCreated_total_when_answered:
  "(NewRequestError env GET (manifestURL rc repository tag) = None \<and>
    answered env (manifestRequest rc repository tag manifest_v1) \<and>
    answered env (manifestRequest rc repository tag manifest_v2) \<longrightarrow>
      (\<exists>created st'. GetImageCreated env rc repository tag st = (Inr created, st'))) \<and>
   (NewRequestError env GET (manifestURL rc repository tag) = None \<and>
    ClientDo env (manifestRequest rc repository tag manifest_v1) st = (Inr resp, st1) \<and>
    createdV1 env resp = None \<and>
    ClientDo env (manifestRequest rc repository tag manifest_v2) st1 = (Inr resp2, st2) \<and>
    createdV2 env rc repository resp2 st2 = (None, st3) \<longrightarrow>
      GetImageCreated env rc repository tag st =
        (Inr (fst (TimeNow env (Printf (PrintFallbackNow repository tag) st3))),
         snd (TimeNow env (Printf (PrintFallbackNow repository tag) st3)))) \<and>
   (GetImageCreated env rc repository tag st = (Inl err, st4) \<longrightarrow>
      resolveCreated env rc repository tag st =
        TimeNow env (Printf (PrintWarnCreated repository tag err) st4))"
proof -
  have caller: "resolveCreated env rc repository tag st =
      TimeNow env (Printf (PrintWarnCreated repository tag err) st4)"
    if "GetImageCreated env rc repository tag st = (Inl err, st4)"
    using that by (simp add: resolveCreated_def)
  from GetImageCreated_answered [of env rc repository tag st]
    GetImageCreated_fallback [of env rc repository tag st resp st1 resp2 st2 st3] caller
  show ?thesis by blast
qed

theorem GetImageCreated_total_when_answered_witness:
  "let E = exampleEnv [((GET, ''r/v2/a/manifests/1'', manifest_v1), answer 404 '''' ''''),
                       ((GET, ''r/v2/a/manifests/1'', manifest_v2), answer 404 '''' '''')];
       first = ClientDo E (manifestRequest rc0 ''a'' ''1'' manifest_v1) st0;
       second = ClientDo E (manifestRequest rc0 ''a'' ''1'' manifest_v2) (snd first);
       failed = GetImageCreated (exampleEnv []) rc0 ''a'' ''1'' st0
   in NewRequestError E GET (manifestURL rc0 ''a'' ''1'') = None \<and>
      answered E (manifestRequest rc0 ''a'' ''1'' manifest_v1) \<and>
      answered E (manifestRequest rc0 ''a'' ''1'' manifest_v2) \<and>
      fst first = answer 404 '''' '''' \<and> fst second = answer 404 '''' '''' \<and>
      fst (GetImageCreated E rc0 ''a'' ''1'' st0) = Inr 1000 \<and>
      Out (snd (GetImageCreated E rc0 ''a'' ''1'' st0)) = [PrintFallbackNow ''a'' ''1''] \<and>
      GetImageCreated E rc0 ''a'' ''1'' st0 =
        (Inr (fst (TimeNow E (Printf (PrintFallbackNow ''a'' ''1'') (snd second)))),
         snd (TimeNow E (Printf (PrintFallbackNow ''a'' ''1'') (snd second)))) \<and>
      fst failed =
        Inl (Errorf ErrGetManifest [ArgStr ''a'', ArgStr ''1'', ArgErr (LibError ''connection refused'')]) \<and>
      resolveCreated (exampleEnv []) rc0 ''a'' ''1'' st0 =
        TimeNow (exampleEnv [])
          (Printf (PrintWarnCreated ''a'' ''1''
             (Errorf ErrGetManifest [ArgStr ''a'', ArgStr ''1'', ArgErr (LibError ''connection refused'')]))
             (snd failed)) \<and>
      fst (resolveCreated (exampleEnv []) rc0 ''a'' ''1'' st0) = 1000"
proof -
  let ?routes = "[((GET, ''r/v2/a/manifests/1'', manifest_v1), answer 404 '''' ''''),
                  ((GET, ''r/v2/a/manifests/1'', manifest_v2), answer 404 '''' '''')]"
  let ?E = "exampleEnv ?routes"
  let ?first = "ClientDo ?E (manifestRequest rc0 ''a'' ''1'' manifest_v1) st0"
  let ?second = "ClientDo ?E (manifestRequest rc0 ''a'' ''1'' manifest_v2) (snd ?first)"
  let ?failed = "GetImageCreated (exampleEnv []) rc0 ''a'' ''1'' st0"
  let ?err = "Errorf ErrGetManifest [ArgStr ''a'', ArgStr ''1'', ArgErr (LibError ''connection refused'')]"
  let ?resp = "\<lparr>StatusCode = 404, DockerContentDigest = '''', Body = ''''\<rparr>"
  have accepted: "NewRequestError ?E GET (manifestURL rc0 ''a'' ''1'') = None"
    by (simp add: exampleEnv_def)
  have answered: "answered ?E (manifestRequest rc0 ''a'' ''1'' manifest_v1)"
    "answered ?E (manifestRequest rc0 ''a'' ''1'' manifest_v2)"
    by (simp_all add: answered_def manifestRequest_def example_simps)
  have first: "?first = (Inr ?resp, snd ?first)"
    by (simp add: manifestRequest_def example_simps)
  have second: "?second = (Inr ?resp, snd ?second)"
    by (simp add: manifestRequest_def example_simps)
  have v1: "createdV1 ?E ?resp = None"
    by (simp add: createdV1_def)
  have v2: "createdV2 ?E rc0 ''a'' ?resp (snd ?second) = (None, snd ?second)"
    by (simp add: createdV2_def)
  have failed: "?failed = (Inl ?err, snd ?failed)"
    by (simp add: example_simps)
  have evaluated: "fst (GetImageCreated ?E rc0 ''a'' ''1'' st0) = Inr 1000"
    "Out (snd (GetImageCreated ?E rc0 ''a'' ''1'' st0)) = [PrintFallbackNow ''a'' ''1'']"
    "fst (resolveCreated (exampleEnv []) rc0 ''a'' ''1'' st0) = 1000"
    by (simp_all add: example_simps)
  from GetImageCreated_total_when_answered [of ?E rc0 "''a''" "''1''" st0 ?resp "snd ?first"
      ?resp "snd ?second" "snd ?second"]
    accepted answered first second v1 v2
  have fallback: "GetImageCreated ?E rc0 ''a'' ''1'' st0 =
        (Inr (fst (TimeNow ?E (Printf (PrintFallbackNow ''a'' ''1'') (snd ?second)))),
         snd (TimeNow ?E (Printf (PrintFallbackNow ''a'' ''1'') (snd ?second))))"
    by blast
  from GetImageCreated_total_when_answered [where env = "exampleEnv []" and rc = rc0
      and repository = "''a''" and tag = "''1''" and st = st0 and err = ?err and ?st4.0 = "snd ?failed"]
    failed
  have caller: "resolveCreated (exampleEnv []) rc0 ''a'' ''1'' st0 =
        TimeNow (exampleEnv []) (Printf (PrintWarnCreated ''a'' ''1'' ?err) (snd ?failed))"
    by blast
  have "fst ?first = answer 404 '''' ''''" "fst ?second = answer 404 '''' ''''"
    "fst ?failed = Inl ?err"
    using first second failed by (simp_all add: answer_def prod_eq_iff)
  with accepted answered evaluated fallback caller show ?thesis
    unfolding Let_def by blast
qed

section \<open>Manifests without a creation time\<close>

lemma zero_time_sorts_last:
  assumes "sortsByCreated env" and "img \<in> set images" and "Created img = zero_time"
    and "\<forall>other \<in> set images. other \<noteq> img \<longrightarrow> zero_time < Created other"
    and "0 \<le> keepLast" and "keepLast < int (length images)"
  shows "\<exists>del. DeleteSet keepLast (sortImages env images) = Inr del \<and> img \<in> set del"
proof -
  let ?sorted = "sortImages env images"
  let ?del = "drop (nat keepLast) ?sorted"
  have len: "length ?sorted = length images"
    by (rule length_sortImages [OF assms(1)])
  with assms(5,6) have del: "DeleteSet keepLast ?sorted = Inr ?del"
    by (simp add: DeleteSet_drop)
  from assms(5,6) len have "?del \<noteq> []" by simp
  then obtain d where d: "d \<in> set ?del"
    by (cases ?del) auto
  then have d_in: "d \<in> set images"
    using set_sortImages [OF assms(1), of images] by (auto dest: in_set_dropD)
  have "img \<in> set ?del"
  proof (cases "img \<in> set (take (nat keepLast) ?sorted)")
    case True
    from kept_not_older [OF sorted_sortImages [OF assms(1)] True d]
    have "Created d \<le> zero_time" by (simp add: assms(3))
    with assms(4) d_in have "d = img" by fastforce
    with d show ?thesis by simp
  next
    case False
    have "img \<in> set ?sorted"
      using assms(2) set_sortImages [OF assms(1), of images] by simp
    then have "img \<in> set (take (nat keepLast) ?sorted @ ?del)" by simp
    with False show ?thesis by (simp del: append_take_drop_id)
  qed
  with del show ?thesis by blast
qed

text \<open>
  C10. A schema-v1 manifest whose first history entry decodes with \<^verbatim>\<open>Created\<close> left at the
  zero value (as \<^verbatim>\<open>encoding/json\<close> leaves it when the document has no \<^verbatim>\<open>created\<close> field) makes
  \<open>GetImageCreated\<close> return the zero time right after the first request: no second request
  is sent and nothing is printed. So does a config blob that decodes with \<^verbatim>\<open>Created\<close> left
  at the zero value, after the third request. Every image created after the zero time is
  newer than an image with the zero time, and when all the other images are such and more
  than \<open>keepLast\<close> images were resolved, the image with the zero time is in the Delete set.
\<close>

theorem missing_created_gives_zero_time:
  "(NewRequestError env GET (manifestURL rc repository tag) = None \<and>
    ClientDo env (manifestRequest rc repository tag manifest_v1) st = (Inr resp, st1) \<and>
    StatusCode resp = 200 \<and>
    DecodeManifest env (Body resp) = Inr manifest \<and>
    History manifest = h # hs \<and>
    UnmarshalV1Compatibility env h = Inr \<lparr>V1Created = zero_time\<rparr> \<longrightarrow>
      GetImageCreated env rc repository tag st = (Inr zero_time, st1) \<and>
      Sent st1 = Sent st @ [manifestRequest rc repository tag manifest_v1] \<and>
      Out st1 = Out st) \<and>
   (NewRequestError env GET (manifestURL rc repository tag) = None \<and>
    ClientDo env (manifestRequest rc repository tag manifest_v1) st = (Inr resp, st1) \<and>
    createdV1 env resp = None \<and>
    ClientDo env (manifestRequest rc repository tag manifest_v2) st1 = (Inr resp2, st2) \<and>
    StatusCode resp2 = 200 \<and>
    DecodeManifestV2 env (Body resp2) = Inr manifestV2 \<and>
    ConfigDigest manifestV2 \<noteq> '''' \<and>
    makeRequest env rc GET (BaseURL rc @ ''/v2/'' @ repository @ ''/blobs/'' @ ConfigDigest manifestV2)
      st2 = (Inr configResp, st3) \<and>
    StatusCode configResp = 200 \<and>
    DecodeConfig env (Body configResp) = Inr \<lparr>ConfigCreated = zero_time\<rparr> \<longrightarrow>
      GetImageCreated env rc repository tag st = (Inr zero_time, st3) \<and>
      Out st3 = Out st) \<and>
   (Created img = zero_time \<and> zero_time < Created other \<longrightarrow>
      newer other img \<and> \<not> newer img other) \<and>
   (sortsByCreated env \<and> img \<in> set images \<and> Created img = zero_time \<and>
    (\<forall>other \<in> set images. other \<noteq> img \<longrightarrow> zero_time < Created other) \<and>
    0 \<le> keepLast \<and> keepLast < int (length images) \<longrightarrow>
      (\<exists>del. DeleteSet keepLast (sortImages env images) = Inr del \<and> img \<in> set del))"
proof -
  have v1: "GetImageCreated env rc repository tag st = (Inr zero_time, st1) \<and>
      Sent st1 = Sent st @ [manifestRequest rc repository tag manifest_v1] \<and> Out st1 = Out st"
    if "NewRequestError env GET (manifestURL rc repository tag) = None"
      "ClientDo env (manifestRequest rc repository tag manifest_v1) st = (Inr resp, st1)"
      "StatusCode resp = 200" "DecodeManifest env (Body resp) = Inr manifest"
      "History manifest = h # hs" "UnmarshalV1Compatibility env h = Inr \<lparr>V1Created = zero_time\<rparr>"
  proof -
    have "createdV1 env resp = Some zero_time"
      using that(3-6) by (simp add: createdV1_def)
    from GetImageCreated_v1 [OF that(1,2) this] ClientDo_eqD [OF that(2)]
    show ?thesis by simp
  qed
  have v2: "GetImageCreated env rc repository tag st = (Inr zero_time, st3) \<and> Out st3 = Out st"
    if "NewRequestError env GET (manifestURL rc repository tag) = None"
      "ClientDo env (manifestRequest rc repository tag manifest_v1) st = (Inr resp, st1)"
      "createdV1 env resp = None"
      "ClientDo env (manifestRequest rc repository tag manifest_v2) st1 = (Inr resp2, st2)"
      "StatusCode resp2 = 200" "DecodeManifestV2 env (Body resp2) = Inr manifestV2"
      "ConfigDigest manifestV2 \<noteq> ''''"
      "makeRequest env rc GET (BaseURL rc @ ''/v2/'' @ repository @ ''/blobs/'' @ ConfigDigest manifestV2)
        st2 = (Inr configResp, st3)"
      "StatusCode configResp = 200" "DecodeConfig env (Body configResp) = Inr \<lparr>ConfigCreated = zero_time\<rparr>"
  proof -
    have c: "createdV2 env rc repository resp2 st2 = (Some zero_time, st3)"
      using that(5-10) by (simp add: createdV2_def)
    have "printed Some st3 = printed Some st2"
      using printed_makeRequest [of Some env rc GET
          "BaseURL rc @ ''/v2/'' @ repository @ ''/blobs/'' @ ConfigDigest manifestV2" st2] that(8)
      by simp
    then have "Out st3 = Out st2"
      by (simp add: printed_def List.map_filter_def)
    with GetImageCreated_v2 [OF that(1-4) c] ClientDo_eqD [OF that(2)] ClientDo_eqD [OF that(4)]
    show ?thesis by simp
  qed
  have rank: "newer other img \<and> \<not> newer img other"
    if "Created img = zero_time" "zero_time < Created other"
    using that by (simp add: newer_def After_def)
  from v1 v2 rank zero_time_sorts_last [of env img images keepLast]
  show ?thesis by blast
qed

theorem missing_created_gives_zero_time_witness:
  "let E = exampleEnv
         [((GET, ''r/v2/a/manifests/0'', manifest_v1), answer 200 '''' ''M0''),
          ((GET, ''r/v2/a/manifests/5'', manifest_v1), answer 404 '''' ''''),
          ((GET, ''r/v2/a/manifests/5'', manifest_v2), answer 200 '''' ''V1''),
          ((GET, ''r/v2/a/blobs/sha256:cfg1'', manifest_v2), answer 200 '''' ''C0'')];
       old = exampleImage ''0'' ''sha256:00000'' zero_time
   in fst (ClientDo E (manifestRequest rc0 ''a'' ''0'' manifest_v1) st0) = answer 200 '''' ''M0'' \<and>
      DecodeManifest E ''M0'' = Inr \<lparr>SchemaVersion = 1, History = [''c0'']\<rparr> \<and>
      UnmarshalV1Compatibility E ''c0'' = Inr \<lparr>V1Created = zero_time\<rparr> \<and>
      fst (GetImageCreated E rc0 ''a'' ''0'' st0) = Inr zero_time \<and>
      Sent (snd (GetImageCreated E rc0 ''a'' ''0'' st0)) = [manifestRequest rc0 ''a'' ''0'' manifest_v1] \<and>
      Out (snd (GetImageCreated E rc0 ''a'' ''0'' st0)) = [] \<and>
      DecodeConfig E ''C0'' = Inr \<lparr>ConfigCreated = zero_time\<rparr> \<and>
      fst (GetImageCreated E rc0 ''a'' ''5'' st0) = Inr zero_time \<and>
      length (Sent (snd (GetImageCreated E rc0 ''a'' ''5'' st0))) = 3 \<and>
      Out (snd (GetImageCreated E rc0 ''a'' ''5'' st0)) = [] \<and>
      newer (exampleImage ''1'' ''sha256:00001'' 100) old \<and>
      \<not> newer old (exampleImage ''1'' ''sha256:00001'' 100) \<and>
      sortsByCreated E \<and>
      DeleteSet 2 (sortImages E (old # images3)) =
        Inr [exampleImage ''1'' ''sha256:00001'' 100, old] \<and>
      (\<exists>del. DeleteSet 2 (sortImages E (old # images3)) = Inr del \<and> old \<in> set del)"
proof -
  let ?routes = "[((GET, ''r/v2/a/manifests/0'', manifest_v1), answer 200 '''' ''M0''),
          ((GET, ''r/v2/a/manifests/5'', manifest_v1), answer 404 '''' ''''),
          ((GET, ''r/v2/a/manifests/5'', manifest_v2), answer 200 '''' ''V1''),
          ((GET, ''r/v2/a/blobs/sha256:cfg1'', manifest_v2), answer 200 '''' ''C0'')]"
  let ?E = "exampleEnv ?routes"
  let ?old = "exampleImage ''0'' ''sha256:00000'' zero_time"
  let ?one = "exampleImage ''1'' ''sha256:00001'' 100"
  let ?m0 = "\<lparr>StatusCode = 200, DockerContentDigest = '''', Body = ''M0''\<rparr>"
  let ?nf = "\<lparr>StatusCode = 404, DockerContentDigest = '''', Body = ''''\<rparr>"
  let ?v1 = "\<lparr>StatusCode = 200, DockerContentDigest = '''', Body = ''V1''\<rparr>"
  let ?c0 = "\<lparr>StatusCode = 200, DockerContentDigest = '''', Body = ''C0''\<rparr>"
  let ?first0 = "ClientDo ?E (manifestRequest rc0 ''a'' ''0'' manifest_v1) st0"
  let ?first5 = "ClientDo ?E (manifestRequest rc0 ''a'' ''5'' manifest_v1) st0"
  let ?second5 = "ClientDo ?E (manifestRequest rc0 ''a'' ''5'' manifest_v2) (snd ?first5)"
  let ?blob = "makeRequest ?E rc0 GET (BaseURL rc0 @ ''/v2/'' @ ''a'' @ ''/blobs/'' @ ''sha256:cfg1'')
      (snd ?second5)"
  have accepted: "NewRequestError ?E GET url = None" for url
    by (simp add: exampleEnv_def)
  have first0: "?first0 = (Inr ?m0, snd ?first0)"
    by (simp add: manifestRequest_def example_simps)
  have docs: "DecodeManifest ?E ''M0'' = Inr \<lparr>SchemaVersion = 1, History = [''c0'']\<rparr>"
    "UnmarshalV1Compatibility ?E ''c0'' = Inr \<lparr>V1Created = zero_time\<rparr>"
    "DecodeManifestV2 ?E ''V1'' =
       Inr \<lparr>SchemaVersionV2 = 2, MediaType = manifest_v2, ConfigDigest = ''sha256:cfg1''\<rparr>"
    "DecodeConfig ?E ''C0'' = Inr \<lparr>ConfigCreated = zero_time\<rparr>"
    by (simp_all add: exampleEnv_def)
  from missing_created_gives_zero_time [where env = ?E and rc = rc0 and repository = "''a''"
      and tag = "''0''" and st = st0 and resp = ?m0 and ?st1.0 = "snd ?first0"
      and manifest = "\<lparr>SchemaVersion = 1, History = [''c0'']\<rparr>" and h = "''c0''" and hs = "[]"]
    accepted first0 docs
  have v1: "GetImageCreated ?E rc0 ''a'' ''0'' st0 = (Inr zero_time, snd ?first0) \<and>
      Sent (snd ?first0) = Sent st0 @ [manifestRequest rc0 ''a'' ''0'' manifest_v1] \<and>
      Out (snd ?first0) = Out st0"
    by simp
  have first5: "?first5 = (Inr ?nf, snd ?first5)"
    by (simp add: manifestRequest_def example_simps)
  have none: "createdV1 ?E ?nf = None"
    by (simp add: createdV1_def)
  have second5: "?second5 = (Inr ?v1, snd ?second5)"
    by (simp add: manifestRequest_def example_simps)
  have blob: "?blob = (Inr ?c0, snd ?blob)"
    by (simp add: manifestRequest_def example_simps)
  from missing_created_gives_zero_time [where env = ?E and rc = rc0 and repository = "''a''"
      and tag = "''5''" and st = st0 and resp = ?nf and ?st1.0 = "snd ?first5"
      and ?resp2.0 = ?v1 and ?st2.0 = "snd ?second5"
      and ?manifestV2.0 = "\<lparr>SchemaVersionV2 = 2, MediaType = manifest_v2, ConfigDigest = ''sha256:cfg1''\<rparr>"
      and configResp = ?c0 and ?st3.0 = "snd ?blob"]
    accepted first5 none second5 blob docs
  have v2: "GetImageCreated ?E rc0 ''a'' ''5'' st0 = (Inr zero_time, snd ?blob) \<and>
      Out (snd ?blob) = Out st0"
    by simp
  have sent: "length (Sent (snd (GetImageCreated ?E rc0 ''a'' ''5'' st0))) = 3"
    by (simp add: example_simps)
  have old: "Created ?old = zero_time" "zero_time < Created ?one"
    by (simp_all add: exampleImage_def zero_time_def)
  from missing_created_gives_zero_time [where img = ?old and other = ?one] old
  have rank: "newer ?one ?old \<and> \<not> newer ?old ?one"
    by blast
  have plan: "DeleteSet 2 (sortImages ?E (?old # images3)) = Inr [?one, ?old]"
    by (simp add: DeleteSet_def images3_def exampleEnv_def exampleImage_def zero_time_def run_simps)
  have others: "\<forall>other \<in> set (?old # images3). other \<noteq> ?old \<longrightarrow> zero_time < Created other"
    by (simp add: images3_def exampleImage_def zero_time_def)
  from missing_created_gives_zero_time [where env = ?E and img = ?old and images = "?old # images3"
      and keepLast = 2] sortsByCreated_exampleEnv [of ?routes] old others
  have deleted: "\<exists>del. DeleteSet 2 (sortImages ?E (?old # images3)) = Inr del \<and> ?old \<in> set del"
    by (simp add: images3_def)
  have "fst ?first0 = answer 200 '''' ''M0''"
    using first0 by (simp add: answer_def prod_eq_iff)
  with v1 v2 docs sent rank plan deleted sortsByCreated_exampleEnv [of ?routes] show ?thesis
    unfolding Let_def by (simp add: st0_def)
qed

section \<open>Errors for responses that are not a success\<close>

lemma DeleteManifest_answered:
  assumes "NewRequestError env DELETE (manifestURL rc repository digest) = None"
    and "ClientDo env (deleteRequest rc repository digest) st = (Inr resp, st1)"
  shows "fst (DeleteManifest env rc repository digest st) =
     (if StatusCode resp = 202 \<or> StatusCode resp = 200 then None
      else if StatusCode resp = 405 then Some (Errorf ErrDeleteUnsupported [])
      else if StatusCode resp = 404 then Some (Errorf ErrManifestNotFound [ArgStr (Body resp)])
      else if StatusCode resp = 401 then Some (Errorf ErrUnauthorized [ArgStr (Body resp)])
      else if StatusCode resp = 403 then Some (Errorf ErrForbidden [ArgStr (Body resp)])
      else Some (Errorf ErrStatusDelete [ArgInt (StatusCode resp), ArgStr (Body resp)]))"
  using assms(2)
  unfolding DeleteManifest_def NewRequest_accepted [OF assms(1)] deleteRequest_def
  by simp

text \<open>
  C8, the claim as stated fails: the error of \<open>GetRepositories\<close> for a response with status
  500 and body \<open>boom\<close> holds the status only, and the error of \<open>DeleteManifest\<close> for a
  response with status 405 and body \<open>gone\<close> holds nothing of the response.
\<close>

theorem status_errors_drop_the_body:
  "fst (GetRepositories (exampleEnv [((GET, ''r/v2/_catalog'', manifest_v2), answer 500 '''' ''boom'')])
          rc0 st0) = Inl (Errorf ErrStatusRepositories [ArgInt 500]) \<and>
   \<not> mentions (Errorf ErrStatusRepositories [ArgInt 500]) ''boom'' \<and>
   fst (DeleteManifest (exampleEnv (routesA ''T3'' head2ok 405)) rc0 ''a'' ''sha256:00001'' st0) =
     Some (Errorf ErrDeleteUnsupported []) \<and>
   \<not> mentions (Errorf ErrDeleteUnsupported []) ''gone''"
  by (simp add: GetRepositories_def example_simps mentions_def)

text \<open>
  C8, as amended. For an answered \<^verbatim>\<open>DELETE\<close> with a status other than 200 and 202,
  \<open>DeleteManifest\<close> returns the delete-unsupported error without the body for 405, and
  otherwise an error that holds the body: not found for 404, unauthorized for 401,
  forbidden for 403, and the status with the body for any other status. For an answered
  request with a status other than 200, \<open>GetRepositories\<close>, \<open>GetTags\<close> and \<open>GetManifestDigest\<close>
  return an error that holds the status and not the body.
\<close>

theorem error_classification:
  "(NewRequestError env DELETE (manifestURL rc repository digest) = None \<and>
    ClientDo env (deleteRequest rc repository digest) st = (Inr resp, st1) \<and>
    StatusCode resp \<noteq> 200 \<and> StatusCode resp \<noteq> 202 \<longrightarrow>
      (\<exists>err. fst (DeleteManifest env rc repository digest st) = Some err \<and>
         err = (if StatusCode resp = 405 then Errorf ErrDeleteUnsupported []
                else if StatusCode resp = 404 then Errorf ErrManifestNotFound [ArgStr (Body resp)]
                else if StatusCode resp = 401 then Errorf ErrUnauthorized [ArgStr (Body resp)]
                else if StatusCode resp = 403 then Errorf ErrForbidden [ArgStr (Body resp)]
                else Errorf ErrStatusDelete [ArgInt (StatusCode resp), ArgStr (Body resp)]) \<and>
         (StatusCode resp \<noteq> 405 \<longrightarrow> mentions err (Body resp)) \<and>
         (StatusCode resp = 405 \<longrightarrow> errorArgs err = []))) \<and>
   (makeRequest env rc GET (BaseURL rc @ ''/v2/_catalog'') st = (Inr resp, st1) \<and>
    StatusCode resp \<noteq> 200 \<longrightarrow>
      fst (GetRepositories env rc st) = Inl (Errorf ErrStatusRepositories [ArgInt (StatusCode resp)])) \<and>
   (makeRequest env rc GET (BaseURL rc @ ''/v2/'' @ repository @ ''/tags/list'') st = (Inr resp, st1) \<and>
    StatusCode resp \<noteq> 200 \<longrightarrow>
      fst (GetTags env rc repository st) =
        Inl (Errorf ErrStatusTags [ArgInt (StatusCode resp), ArgStr repository])) \<and>
   (makeRequest env rc HEAD (manifestURL rc repository tag) st = (Inr resp, st1) \<and>
    StatusCode resp \<noteq> 200 \<longrightarrow>
      fst (GetManifestDigest env rc repository tag st) =
        Inl (Errorf ErrStatusManifest [ArgInt (StatusCode resp), ArgStr repository, ArgStr tag]))"
proof -
  have del: "\<exists>err. fst (DeleteManifest env rc repository digest st) = Some err \<and>
         err = (if StatusCode resp = 405 then Errorf ErrDeleteUnsupported []
                else if StatusCode resp = 404 then Errorf ErrManifestNotFound [ArgStr (Body resp)]
                else if StatusCode resp = 401 then Errorf ErrUnauthorized [ArgStr (Body resp)]
                else if StatusCode resp = 403 then Errorf ErrForbidden [ArgStr (Body resp)]
                else Errorf ErrStatusDelete [ArgInt (StatusCode resp), ArgStr (Body resp)]) \<and>
         (StatusCode resp \<noteq> 405 \<longrightarrow> mentions err (Body resp)) \<and>
         (StatusCode resp = 405 \<longrightarrow> errorArgs err = [])"
    if "NewRequestError env DELETE (manifestURL rc repository digest) = None"
      "ClientDo env (deleteRequest rc repository digest) st = (Inr resp, st1)"
      "StatusCode resp \<noteq> 200" "StatusCode resp \<noteq> 202"
    using DeleteManifest_answered [OF that(1,2)] that(3,4)
    by (simp add: mentions_def)
  have repos: "fst (GetRepositories env rc st) =
      Inl (Errorf ErrStatusRepositories [ArgInt (StatusCode resp)])"
    if "makeRequest env rc GET (BaseURL rc @ ''/v2/_catalog'') st = (Inr resp, st1)"
      "StatusCode resp \<noteq> 200"
    using that by (simp add: GetRepositories_def)
  have tags: "fst (GetTags env rc repository st) =
      Inl (Errorf ErrStatusTags [ArgInt (StatusCode resp), ArgStr repository])"
    if "makeRequest env rc GET (BaseURL rc @ ''/v2/'' @ repository @ ''/tags/list'') st = (Inr resp, st1)"
      "StatusCode resp \<noteq> 200"
    using that by (simp add: GetTags_def)
  have digest: "fst (GetManifestDigest env rc repository tag st) =
      Inl (Errorf ErrStatusManifest [ArgInt (StatusCode resp), ArgStr repository, ArgStr tag])"
    if "makeRequest env rc HEAD (manifestURL rc repository tag) st = (Inr resp, st1)"
      "StatusCode resp \<noteq> 200"
    using that by (simp add: GetManifestDigest_def)
  from del repos tags digest show ?thesis by blast
qed

theorem error_classification_witness:
  "let E = exampleEnv
         [((GET, ''r/v2/_catalog'', manifest_v2), answer 500 '''' ''boom''),
          ((GET, ''r/v2/a/tags/list'', manifest_v2), answer 401 '''' ''denied''),
          ((HEAD, ''r/v2/a/manifests/1'', manifest_v2), answer 404 '''' ''missing''),
          ((DELETE, ''r/v2/a/manifests/sha256:00001'', manifest_v2), answer 403 '''' ''no'')]
   in fst (ClientDo E (deleteRequest rc0 ''a'' ''sha256:00001'') st0) = answer 403 '''' ''no'' \<and>
      fst (DeleteManifest E rc0 ''a'' ''sha256:00001'' st0) = Some (Errorf ErrForbidden [ArgStr ''no'']) \<and>
      mentions (Errorf ErrForbidden [ArgStr ''no'']) ''no'' \<and>
      fst (makeRequest E rc0 GET (BaseURL rc0 @ ''/v2/_catalog'') st0) = answer 500 '''' ''boom'' \<and>
      fst (GetRepositories E rc0 st0) = Inl (Errorf ErrStatusRepositories [ArgInt 500]) \<and>
      fst (makeRequest E rc0 GET (BaseURL rc0 @ ''/v2/'' @ ''a'' @ ''/tags/list'') st0) =
        answer 401 '''' ''denied'' \<and>
      fst (GetTags E rc0 ''a'' st0) = Inl (Errorf ErrStatusTags [ArgInt 401, ArgStr ''a'']) \<and>
      fst (makeRequest E rc0 HEAD (manifestURL rc0 ''a'' ''1'') st0) = answer 404 '''' ''missing'' \<and>
      fst (GetManifestDigest E rc0 ''a'' ''1'' st0) =
        Inl (Errorf ErrStatusManifest [ArgInt 404, ArgStr ''a'', ArgStr ''1''])"
proof -
  let ?routes = "[((GET, ''r/v2/_catalog'', manifest_v2), answer 500 '''' ''boom''),
          ((GET, ''r/v2/a/tags/list'', manifest_v2), answer 401 '''' ''denied''),
          ((HEAD, ''r/v2/a/manifests/1'', manifest_v2), answer 404 '''' ''missing''),
          ((DELETE, ''r/v2/a/manifests/sha256:00001'', manifest_v2), answer 403 '''' ''no'')]"
  let ?E = "exampleEnv ?routes"
  let ?no = "\<lparr>StatusCode = 403, DockerContentDigest = '''', Body = ''no''\<rparr>"
  let ?boom = "\<lparr>StatusCode = 500, DockerContentDigest = '''', Body = ''boom''\<rparr>"
  let ?denied = "\<lparr>StatusCode = 401, DockerContentDigest = '''', Body = ''denied''\<rparr>"
  let ?missing = "\<lparr>StatusCode = 404, DockerContentDigest = '''', Body = ''missing''\<rparr>"
  let ?del = "ClientDo ?E (deleteRequest rc0 ''a'' ''sha256:00001'') st0"
  let ?catalog = "makeRequest ?E rc0 GET (BaseURL rc0 @ ''/v2/_catalog'') st0"
  let ?tags = "makeRequest ?E rc0 GET (BaseURL rc0 @ ''/v2/'' @ ''a'' @ ''/tags/list'') st0"
  let ?head = "makeRequest ?E rc0 HEAD (manifestURL rc0 ''a'' ''1'') st0"
  have accepted: "NewRequestError ?E m url = None" for m url
    by (simp add: exampleEnv_def)
  have del: "?del = (Inr ?no, snd ?del)"
    by (simp add: deleteRequest_def example_simps)
  have catalog: "?catalog = (Inr ?boom, snd ?catalog)"
    by (simp add: example_simps)
  have tags: "?tags = (Inr ?denied, snd ?tags)"
    by (simp add: example_simps)
  have head: "?head = (Inr ?missing, snd ?head)"
    by (simp add: example_simps)
  from error_classification [where env = ?E and rc = rc0 and repository = "''a''"
      and digest = "''sha256:00001''" and st = st0 and resp = ?no and ?st1.0 = "snd ?del"]
    accepted del
  have 1: "fst (DeleteManifest ?E rc0 ''a'' ''sha256:00001'' st0) = Some (Errorf ErrForbidden [ArgStr ''no'']) \<and>
      mentions (Errorf ErrForbidden [ArgStr ''no'']) ''no''"
    by simp
  from error_classification [where env = ?E and rc = rc0 and st = st0 and resp = ?boom
      and ?st1.0 = "snd ?catalog"] catalog
  have 2: "fst (GetRepositories ?E rc0 st0) = Inl (Errorf ErrStatusRepositories [ArgInt 500])"
    by simp
  from error_classification [where env = ?E and rc = rc0 and repository = "''a''" and st = st0
      and resp = ?denied and ?st1.0 = "snd ?tags"] tags
  have 3: "fst (GetTags ?E rc0 ''a'' st0) = Inl (Errorf ErrStatusTags [ArgInt 401, ArgStr ''a''])"
    by simp
  from error_classification [where env = ?E and rc = rc0 and repository = "''a''" and tag = "''1''"
      and st = st0 and resp = ?missing and ?st1.0 = "snd ?head"] head
  have 4: "fst (GetManifestDigest ?E rc0 ''a'' ''1'' st0) =
      Inl (Errorf ErrStatusManifest [ArgInt 404, ArgStr ''a'', ArgStr ''1''])"
    by simp
  have "fst ?del = answer 403 '''' ''no''" "fst ?catalog = answer 500 '''' ''boom''"
    "fst ?tags = answer 401 '''' ''denied''" "fst ?head = answer 404 '''' ''missing''"
    using del catalog tags head by (simp_all add: answer_def prod_eq_iff)
  with 1 2 3 4 show ?thesis
    unfolding Let_def by blast
qed

section \<open>The order of images with equal timestamps\<close>

lemma filter_same_key:
  "distinct (map f xs) \<Longrightarrow> k \<in> set xs \<Longrightarrow> filter (\<lambda>x. f k = f x) xs = [k]"
proof (induction xs)
  case Nil
  then show ?case by simp
next
  case (Cons x xs)
  show ?case
  proof (cases "k = x")
    case True
    have "filter (\<lambda>y. f x = f y) xs = []"
      using Cons.prems(1) by (auto simp: filter_empty_conv)
    with True show ?thesis by simp
  next
    case False
    with Cons.prems(2) have in_xs: "k \<in> set xs" by simp
    from Cons.prems(1) have "f x \<notin> f ` set xs" by simp
    with in_xs have "f k \<noteq> f x" by (metis imageI)
    with in_xs Cons show ?thesis by simp
  qed
qed

lemma sorted_rev_sortImages:
  assumes "sortsByCreated env"
  shows "sorted (map Created (rev (sortImages env images)))"
proof -
  have "sorted_wrt (\<lambda>a b. Created b \<le> Created a) (sortImages env images)"
    by (rule sorted_sortImages [OF assms])
  then have "sorted_wrt (\<lambda>a b. Created a \<le> Created b) (rev (sortImages env images))"
    by (simp add: sorted_wrt_rev)
  then show ?thesis
    by (simp add: sorted_wrt_map)
qed

lemmas sort_simps =
  dataLess_def dataSwap_def insertionSort_func_def insertionLoop.simps insertionSwaps.simps
  order2_func_def median_func_def choosePivot_func_def ascending.simps
  partialInsertionSort_func_def partitionUp.simps partitionDown.simps partitionLoop.simps
  partition_func_def newer_def After_def

text \<open>
  C5, the claim as stated fails: \<^verbatim>\<open>sort.Slice\<close> is not a stable sort. Of the thirteen images
  the first two, tags \<open>1\<close> and \<open>2\<close>, have the same timestamp. The pivot is the image at index
  6 and \<^verbatim>\<open>partition_func\<close> begins by swapping it with the image at index 0, which takes tag
  \<open>1\<close> behind tag \<open>2\<close>; no later comparison of the two holds, so nothing brings it back. In
  the sorted slice tag \<open>2\<close> comes before tag \<open>1\<close>, and with \<open>keepLast = 2\<close> tag \<open>2\<close> is kept and
  tag \<open>1\<close> is the first image deleted.
\<close>

theorem sort_Slice_reorders_equal_timestamps:
  "Created (images13 ! 0) = Created (images13 ! 1) \<and>
   choosePivot_func newer images13 0 13 = (6, increasingHint) \<and>
   partialInsertionSort_func newer images13 0 13 = Some False \<and>
   partition_func newer images13 0 13 6 = (sorted13, 3, False) \<and>
   insertionSort_func newer sorted13 0 3 = sorted13 \<and>
   insertionSort_func newer sorted13 4 13 = sorted13 \<and>
   sortSlice newer images13 = Some sorted13 \<and>
   sortImages (goEnv []) images13 = sorted13 \<and>
   KeepSet 2 (sortImages (goEnv []) images13) = [images13 ! 3, images13 ! 1] \<and>
   DeleteSet 2 (sortImages (goEnv []) images13) =
     Inr (map ((!) images13) [0, 6, 4, 5, 2, 7, 8, 9, 10, 11, 12]) \<and>
   printed deleteStarted (snd (deletePhase (goEnv []) rc0 2 (sortImages (goEnv []) images13) st0)) =
     map (Pair ''a'') [''1'', ''7'', ''5'', ''6'', ''3'', ''8'', ''9'', ''10'', ''11'', ''12'', ''13'']"
proof -
  have tie: "Created (images13 ! 0) = Created (images13 ! 1)"
    by (simp add: images13_def exampleImage_def)
  have pivot: "choosePivot_func newer images13 0 13 = (6, increasingHint)"
    by (simp add: images13_def exampleImage_def sort_simps)
  have partial: "partialInsertionSort_func newer images13 0 13 = Some False"
    by (simp add: images13_def exampleImage_def sort_simps)
  have partitioned: "partition_func newer images13 0 13 6 = (sorted13, 3, False)"
    by (simp add: sorted13_def images13_def exampleImage_def sort_simps)
  have left: "insertionSort_func newer sorted13 0 3 = sorted13"
    by (simp add: sorted13_def images13_def exampleImage_def sort_simps)
  have right: "insertionSort_func newer sorted13 4 13 = sorted13"
    by (simp add: sorted13_def images13_def exampleImage_def sort_simps)
  have len: "length images13 = 13"
    by (simp add: images13_def)
  have "pdqsort_func (Suc (Suc fuel)) newer images13 0 13 4 True True = Some sorted13" for fuel
    by (simp add: pivot partial partitioned left right)
  moreover have "bitsLen 13 = 4"
    by (simp add: bitsLen.simps)
  ultimately have slice: "sortSlice newer images13 = Some sorted13"
    unfolding sortSlice_def len by (simp add: numeral_eq_Suc)
  then have sorted: "sortImages (goEnv []) images13 = sorted13"
    by (simp add: sortImages_def goEnv_def)
  have keep: "KeepSet 2 (sortImages (goEnv []) images13) = [images13 ! 3, images13 ! 1]"
    unfolding sorted by (simp add: KeepSet_take sorted13_def)
  have del: "DeleteSet 2 (sortImages (goEnv []) images13) =
      Inr (map ((!) images13) [0, 6, 4, 5, 2, 7, 8, 9, 10, 11, 12])"
    unfolding sorted by (simp add: DeleteSet_def sliceFrom_def sorted13_def)
  have long: "\<forall>img \<in> set (drop 2 sorted13). longDigest img"
    by (simp add: sorted13_def images13_def exampleImage_def longDigest_def)
  have "printed deleteStarted (snd (deletePhase (goEnv []) rc0 2 sorted13 st0)) =
      printed deleteStarted st0 @ map imageKey (drop 2 sorted13)"
    using deletePhase_run [of 2 "goEnv []" rc0 sorted13 st0] by (simp add: all_long [OF long])
  then have started: "printed deleteStarted (snd (deletePhase (goEnv []) rc0 2 sorted13 st0)) =
      map (Pair ''a'') [''1'', ''7'', ''5'', ''6'', ''3'', ''8'', ''9'', ''10'', ''11'', ''12'', ''13'']"
    by (simp add: sorted13_def images13_def exampleImage_def imageKey_def printed_def st0_def
        List.map_filter_def)
  from tie pivot partial partitioned left right slice sorted keep del started show ?thesis
    by (simp only: simp_thms)
qed

text \<open>
  C5, as amended. When no two images have the same timestamp, the sorted list is the
  images by descending timestamp, whatever the order of the input and whichever sort that
  permutes and orders \<^verbatim>\<open>sort.Slice\<close> is; nothing is fixed about the order of images with the
  same timestamp.
\<close>

theorem sorted_order_without_ties:
  assumes "sortsByCreated env" and "distinct (map Created images)"
  shows "sortImages env images = rev (sort_key Created images)"
proof -
  let ?ys = "rev (sortImages env images)"
  have m: "mset ?ys = mset images"
    by (simp add: mset_sortImages [OF assms(1)])
  then have "mset (map Created ?ys) = mset (map Created images)"
    by (metis mset_map)
  with assms(2) have d: "distinct (map Created ?ys)"
    by (metis distinct_count_atmost_1 set_mset_mset mset_eq_setD)
  have s: "set ?ys = set images"
    using m by (rule mset_eq_setD)
  have "filter (\<lambda>x. Created k = Created x) ?ys = filter (\<lambda>x. Created k = Created x) images"
    if "k \<in> set ?ys" for k
    using filter_same_key [OF d that] filter_same_key [OF assms(2), of k] that s by simp
  with m sorted_rev_sortImages [OF assms(1), of images]
  have "sort_key Created images = ?ys"
    by (intro properties_for_sort_key) auto
  then show ?thesis by simp
qed

theorem sorted_order_without_ties_witness:
  "sortsByCreated (exampleEnv []) \<and> distinct (map Created images3) \<and>
   sortImages (exampleEnv []) images3 = rev (sort_key Created images3) \<and>
   sortImages (exampleEnv []) images3 =
     [exampleImage ''3'' ''sha256:00003'' 300, exampleImage ''2'' ''sha256:00002'' 200,
      exampleImage ''1'' ''sha256:00001'' 100]"
proof -
  have d: "distinct (map Created images3)"
    by (simp add: images3_def exampleImage_def)
  have "sortImages (exampleEnv []) images3 =
     [exampleImage ''3'' ''sha256:00003'' 300, exampleImage ''2'' ''sha256:00002'' 200,
      exampleImage ''1'' ''sha256:00001'' 100]"
    by (simp add: images3_def exampleEnv_def exampleImage_def run_simps)
  with sorted_order_without_ties [OF sortsByCreated_exampleEnv d, of "[]"]
    sortsByCreated_exampleEnv [of "[]"] d
  show ?thesis by simp
qed

end
